theory Spec2Isabelle
  imports Complex_Main "HOL-Library.AList" "HOL-Library.Multiset" "HOL-Library.Char_ord"
    "HOL-Library.List_Lexorder" "HOL-Library.Option_ord"
begin

section \<open>Link analytics of the disaster response system\<close>

text \<open>
  A shallow embedding of \<^verbatim>\<open>src/Link_analytics.py\<close>: the co-occurrence graph of
  locations (\<^verbatim>\<open>build_location_graph\<close>), its analysis (\<^verbatim>\<open>analyze_disaster_spread\<close>)
  and the assembly of the report (\<^verbatim>\<open>generate_link_analysis_report\<close>).

  Python dictionaries keep insertion order, so they are association lists. What the
  interpreter and its numeric libraries decide is an argument of the model, the runtime:
  the arithmetic and the comparison of floats, the two means, and the order in which a set
  is listed. A property proved for every runtime holds for the floats of the machine; the
  runtime \<open>exact\<close> computes with rationals and NaN.
\<close>

subsection \<open>The data frame\<close>

text \<open>
  A cell of an object column holds a string, or NaN where the document that the row was
  made from had no such field: \<open>None\<close> is NaN. The severity is a float \<open>'f\<close> of the
  runtime, NaN where the document had none. A data frame is its column names and its rows.
\<close>

type_synonym cell = "string option"

record 'f incident =
  location :: cell
  disaster_type :: cell
  alert_level :: 'f

record 'f dataframe =
  columns :: "string list"
  rows :: "'f incident list"

text \<open>\<^verbatim>\<open>Series.unique()\<close>: the distinct values in order of first appearance (NaN once).\<close>

definition unique :: "'a list \<Rightarrow> 'a list" where
  "unique xs = rev (remdups (rev xs))"

text \<open>
  \<^verbatim>\<open>==\<close> and \<^verbatim>\<open>!=\<close> on two cells: NaN is equal to nothing, itself included, and differs
  from everything.
\<close>

definition cell_eq :: "cell \<Rightarrow> cell \<Rightarrow> bool" where
  "cell_eq a b = (a \<noteq> None \<and> a = b)"

definition cell_ne :: "cell \<Rightarrow> cell \<Rightarrow> bool" where
  "cell_ne a b = (a = None \<or> a \<noteq> b)"

text \<open>\<^verbatim>\<open>df.empty\<close>: some axis has length 0.\<close>

definition empty_df :: "'f dataframe \<Rightarrow> bool" where
  "empty_df df = (rows df = [] \<or> columns df = [])"

subsection \<open>The graph\<close>

text \<open>
  \<^verbatim>\<open>nx.Graph\<close> keeps a dictionary from each node to the dictionary of its neighbours, each
  neighbour with the attribute dictionary of the edge; the attribute dictionary of an edge
  is one object, reachable from both of its ends. Here the two entries hold equal values
  and every write goes to both. The nodes are the keys, in insertion order.
\<close>

record edge_data =
  weight :: int
  disasters :: "cell set"

type_synonym 'n graph = "('n \<times> ('n \<times> edge_data) list) list"

definition nodes :: "'n graph \<Rightarrow> 'n list" where
  "nodes G = map fst G"

text \<open>\<^verbatim>\<open>G[v]\<close>: the neighbours of a node, in insertion order.\<close>

definition neighbors :: "'n graph \<Rightarrow> 'n \<Rightarrow> 'n list" where
  "neighbors G v = (case map_of G v of None \<Rightarrow> [] | Some nbrs \<Rightarrow> map fst nbrs)"

definition get_edge_data :: "'n graph \<Rightarrow> 'n \<Rightarrow> 'n \<Rightarrow> edge_data option" where
  "get_edge_data G u v = (case map_of G u of None \<Rightarrow> None | Some nbrs \<Rightarrow> map_of nbrs v)"

definition has_edge :: "'n graph \<Rightarrow> 'n \<Rightarrow> 'n \<Rightarrow> bool" where
  "has_edge G u v = (get_edge_data G u v \<noteq> None)"

definition add_node :: "'n \<Rightarrow> 'n graph \<Rightarrow> 'n graph" where
  "add_node n G = (if n \<in> set (nodes G) then G else G @ [(n, [])])"

text \<open>\<^verbatim>\<open>self._adj[u][v] = dd\<close>, for a node \<open>u\<close> of the graph or a new one.\<close>

definition set_adj :: "'n \<Rightarrow> 'n \<Rightarrow> edge_data \<Rightarrow> 'n graph \<Rightarrow> 'n graph" where
  "set_adj u v dd G =
     AList.update u (AList.update v dd (case map_of G u of None \<Rightarrow> [] | Some nbrs \<Rightarrow> nbrs)) G"

text \<open>
  Writing the attributes of an edge at both of its ends: \<^verbatim>\<open>set_edge\<close> is the in-place
  change of the attribute dictionary of an edge that exists, and
  \<^verbatim>\<open>G.add_edge(u, v, **attr)\<close> adds the two nodes when they are new and stores the
  attributes.
\<close>

definition set_edge :: "'n \<Rightarrow> 'n \<Rightarrow> edge_data \<Rightarrow> 'n graph \<Rightarrow> 'n graph" where
  "set_edge u v dd G = set_adj v u dd (set_adj u v dd G)"

definition add_edge :: "'n \<Rightarrow> 'n \<Rightarrow> edge_data \<Rightarrow> 'n graph \<Rightarrow> 'n graph" where
  "add_edge u v dd G = set_edge u v dd (add_node v (add_node u G))"

text \<open>\<^verbatim>\<open>G.degree()\<close> of a node: its neighbours, a self-loop counted twice.\<close>

definition degree :: "'n graph \<Rightarrow> 'n \<Rightarrow> nat" where
  "degree G v = length (neighbors G v) + (if v \<in> set (neighbors G v) then 1 else 0)"

text \<open>
  \<^verbatim>\<open>G.edges(data=True)\<close>: for each node in order, its edges to the neighbours that have
  not been reported as a first end before.
\<close>

fun edges_from :: "'n list \<Rightarrow> 'n graph \<Rightarrow> ('n \<times> 'n \<times> edge_data) list" where
  "edges_from seen [] = []"
| "edges_from seen ((n, nbrs) # G) =
     map (\<lambda>(nbr, dd). (n, nbr, dd)) (filter (\<lambda>(nbr, dd). nbr \<notin> set seen) nbrs)
       @ edges_from (n # seen) G"

definition edges :: "'n graph \<Rightarrow> ('n \<times> 'n \<times> edge_data) list" where
  "edges G = edges_from [] G"

subsection \<open>Building the co-occurrence graph\<close>

text \<open>
  The pairs \<open>(xs ! i, xs ! j)\<close> for \<open>i\<close> in \<open>range(len(xs))\<close> and \<open>j\<close> in
  \<open>range(i + 1, len(xs))\<close>, in the order of the two nested loops.
\<close>

fun pairs :: "'a list \<Rightarrow> ('a \<times> 'a) list" where
  "pairs [] = []"
| "pairs (x # xs) = map (Pair x) xs @ pairs xs"

text \<open>The body of the inner loop: one more disaster on an edge, or a new edge.\<close>

definition connect :: "cell \<Rightarrow> cell \<times> cell \<Rightarrow> cell graph \<Rightarrow> cell graph" where
  "connect disaster p G =
     (case p of (loc1, loc2) \<Rightarrow>
        (case get_edge_data G loc1 loc2 of
           Some dd \<Rightarrow>
             set_edge loc1 loc2
               (dd\<lparr>weight := weight dd + 1, disasters := insert disaster (disasters dd)\<rparr>) G
         | None \<Rightarrow> add_edge loc1 loc2 \<lparr>weight = 1, disasters = {disaster}\<rparr> G))"

definition affected_locations :: "'f dataframe \<Rightarrow> cell \<Rightarrow> cell list" where
  "affected_locations df disaster =
     unique (map location (filter (\<lambda>r. cell_eq (disaster_type r) disaster) (rows df)))"

definition connect_disaster :: "'f dataframe \<Rightarrow> cell \<Rightarrow> cell graph \<Rightarrow> cell graph" where
  "connect_disaster df disaster G =
     (let affected = affected_locations df disaster
      in if length affected > 1 then fold (connect disaster) (pairs affected) G else G)"

definition build_location_graph :: "'f dataframe \<Rightarrow> cell graph" where
  "build_location_graph df =
     (let G = fold add_node (unique (map location (rows df))) [];
          disaster_types = unique (map disaster_type (rows df))
      in fold (connect_disaster df) disaster_types G)"

subsection \<open>The runtime\<close>

text \<open>
  The floats of the interpreter with the operations that the program and its libraries
  apply to them: the constants \<^verbatim>\<open>0.0\<close>, \<^verbatim>\<open>1.0\<close>, \<^verbatim>\<open>0.5\<close> and \<^verbatim>\<open>0.1\<close>, the float of an
  integer, \<^verbatim>\<open>+\<close>, \<^verbatim>\<open>-\<close>, \<^verbatim>\<open>*\<close>, \<^verbatim>\<open>/\<close> and \<^verbatim>\<open><\<close> (\<^verbatim>\<open>a > b\<close> is \<^verbatim>\<open>b < a\<close>), the mean of a
  pandas group (\<^verbatim>\<open>Series.mean\<close>, which skips NaN), \<^verbatim>\<open>np.mean\<close> of a list, and the list
  that \<^verbatim>\<open>list(s)\<close> makes of a set of cells.
\<close>

record 'f runtime =
  fzero :: 'f
  fone :: 'f
  fhalf :: 'f
  ftenth :: 'f
  fof_nat :: "nat \<Rightarrow> 'f"
  fadd :: "'f \<Rightarrow> 'f \<Rightarrow> 'f"
  fsub :: "'f \<Rightarrow> 'f \<Rightarrow> 'f"
  fmul :: "'f \<Rightarrow> 'f \<Rightarrow> 'f"
  fdiv :: "'f \<Rightarrow> 'f \<Rightarrow> 'f"
  fless :: "'f \<Rightarrow> 'f \<Rightarrow> bool"
  series_mean :: "'f list \<Rightarrow> 'f"
  np_mean :: "'f list \<Rightarrow> 'f"
  list_of_set :: "cell set \<Rightarrow> cell list"

subsection \<open>Centrality\<close>

text \<open>
  The centrality measures are those of the networkx library, called with its defaults.
  \<^verbatim>\<open>nx.degree_centrality(G)\<close> is
  \<^verbatim>\<open>
  if len(G) <= 1: return {n: 1 for n in G}
  s = 1.0 / (len(G) - 1.0)
  return {n: d * s for n, d in G.degree()}
  \<close>
\<close>

definition degree_centrality :: "'f runtime \<Rightarrow> 'n graph \<Rightarrow> ('n \<times> 'f) list" where
  "degree_centrality rt G =
     (if length G \<le> 1 then map (\<lambda>n. (n, fone rt)) (nodes G)
      else let s = fdiv rt (fone rt) (fsub rt (fof_nat rt (length G)) (fone rt))
           in map (\<lambda>n. (n, fmul rt (fof_nat rt (degree G n)) s)) (nodes G))"

text \<open>
  \<^verbatim>\<open>nx.betweenness_centrality(G)\<close> is Brandes' algorithm. For each source, a breadth-first
  search (\<^verbatim>\<open>_single_source_shortest_path_basic\<close>) records the nodes in the order they leave
  the queue (\<open>S\<close>), the predecessors on shortest paths (\<open>P\<close>), the number of shortest
  paths (\<open>sigma\<close>) and the distance (\<open>D\<close>). The dictionaries that the routine fills for
  every node before it starts are total functions; \<open>D\<close>, whose keys are the nodes found so
  far, is a map, and reading it at a missing key is the \<open>None\<close> result.

  The body of \<^verbatim>\<open>for w in G[v]\<close>:
  \<^verbatim>\<open>
  if w not in D:
      Q.append(w); D[w] = Dv + 1
  if D[w] == Dv + 1:
      sigma[w] += sigmav; P[w].append(v)
  \<close>
\<close>

type_synonym ('n, 'f) search = "'n list \<times> ('n \<rightharpoonup> nat) \<times> ('n \<Rightarrow> 'f) \<times> ('n \<Rightarrow> 'n list)"

definition visit ::
  "'f runtime \<Rightarrow> 'n \<Rightarrow> nat \<Rightarrow> 'f \<Rightarrow> 'n \<Rightarrow> ('n, 'f) search \<Rightarrow> ('n, 'f) search" where
  "visit rt v Dv sigmav w st =
     (case st of (Q, D, sigma, P) \<Rightarrow>
        (let (Q1, D1) = (if D w = None then (Q @ [w], D(w \<mapsto> Dv + 1)) else (Q, D))
         in if D1 w = Some (Dv + 1)
            then (Q1, D1, sigma(w := fadd rt (sigma w) sigmav), P(w := P w @ [v]))
            else (Q1, D1, sigma, P)))"

text \<open>The loop \<^verbatim>\<open>while Q: v = Q.popleft(); S.append(v); ...\<close>\<close>

function bfs ::
  "'f runtime \<Rightarrow> 'n graph \<Rightarrow> 'n list \<Rightarrow> ('n \<rightharpoonup> nat) \<Rightarrow> ('n \<Rightarrow> 'f) \<Rightarrow> ('n \<Rightarrow> 'n list) \<Rightarrow> 'n list
     \<Rightarrow> ('n list \<times> ('n \<Rightarrow> 'n list) \<times> ('n \<Rightarrow> 'f)) option" where
  "bfs rt G S D sigma P [] = Some (S, P, sigma)"
| "bfs rt G S D sigma P (v # Q) =
     (case D v of
        None \<Rightarrow> None
      | Some Dv \<Rightarrow>
          (case fold (visit rt v Dv (sigma v)) (neighbors G v) (Q, D, sigma, P) of
             (Q', D', sigma', P') \<Rightarrow> bfs rt G (S @ [v]) D' sigma' P' Q'))"
  by pat_completeness auto

definition single_source_shortest_path_basic ::
  "'f runtime \<Rightarrow> 'n graph \<Rightarrow> 'n \<Rightarrow> ('n list \<times> ('n \<Rightarrow> 'n list) \<times> ('n \<Rightarrow> 'f)) option" where
  "single_source_shortest_path_basic rt G s =
     bfs rt G [] [s \<mapsto> 0] ((\<lambda>_. fzero rt)(s := fone rt)) (\<lambda>_. []) [s]"

text \<open>
  \<^verbatim>\<open>_accumulate_basic\<close>: the nodes leave \<open>S\<close> from its end,
  \<^verbatim>\<open>
  coeff = (1 + delta[w]) / sigma[w]
  for v in P[w]: delta[v] += sigma[v] * coeff
  if w != s: betweenness[w] += delta[w]
  \<close>
  The test \<^verbatim>\<open>w != s\<close> is Python's on the nodes, the argument \<open>ne\<close>: it holds of a NaN
  node and itself.
\<close>

definition accumulate_step ::
  "'f runtime \<Rightarrow> ('n \<Rightarrow> 'n \<Rightarrow> bool) \<Rightarrow> ('n \<Rightarrow> 'n list) \<Rightarrow> ('n \<Rightarrow> 'f) \<Rightarrow> 'n \<Rightarrow> 'n
     \<Rightarrow> ('n \<Rightarrow> 'f) \<times> ('n \<Rightarrow> 'f) \<Rightarrow> ('n \<Rightarrow> 'f) \<times> ('n \<Rightarrow> 'f)" where
  "accumulate_step rt ne P sigma s w st =
     (case st of (betweenness, delta) \<Rightarrow>
        (let coeff = fdiv rt (fadd rt (fone rt) (delta w)) (sigma w);
             delta' = fold (\<lambda>v d. d(v := fadd rt (d v) (fmul rt (sigma v) coeff))) (P w) delta
         in (if ne w s then betweenness(w := fadd rt (betweenness w) (delta' w))
             else betweenness,
             delta')))"

definition accumulate_basic ::
  "'f runtime \<Rightarrow> ('n \<Rightarrow> 'n \<Rightarrow> bool) \<Rightarrow> ('n \<Rightarrow> 'f) \<Rightarrow> 'n list \<Rightarrow> ('n \<Rightarrow> 'n list) \<Rightarrow> ('n \<Rightarrow> 'f)
     \<Rightarrow> 'n \<Rightarrow> ('n \<Rightarrow> 'f)" where
  "accumulate_basic rt ne betweenness S P sigma s =
     fst (fold (accumulate_step rt ne P sigma s) (rev S) (betweenness, \<lambda>_. fzero rt))"

text \<open>The loop over the sources; a failed search ends it.\<close>

fun accumulate_sources ::
  "'f runtime \<Rightarrow> ('n \<Rightarrow> 'n \<Rightarrow> bool) \<Rightarrow> 'n graph \<Rightarrow> 'n list \<Rightarrow> ('n \<Rightarrow> 'f)
     \<Rightarrow> ('n \<Rightarrow> 'f) option" where
  "accumulate_sources rt ne G [] betweenness = Some betweenness"
| "accumulate_sources rt ne G (s # ss) betweenness =
     (case single_source_shortest_path_basic rt G s of
        None \<Rightarrow> None
      | Some (S, P, sigma) \<Rightarrow>
          accumulate_sources rt ne G ss (accumulate_basic rt ne betweenness S P sigma s))"

text \<open>
  \<^verbatim>\<open>_rescale\<close> with \<^verbatim>\<open>normalized=True\<close>, the default of
  \<^verbatim>\<open>betweenness_centrality\<close>: no scale for \<open>n \<le> 2\<close>, and
  \<^verbatim>\<open>scale = 1 / ((n - 1) * (n - 2))\<close>, \<^verbatim>\<open>betweenness[v] *= scale\<close> otherwise.
\<close>

definition rescale :: "'f runtime \<Rightarrow> nat \<Rightarrow> 'f \<Rightarrow> 'f" where
  "rescale rt n x =
     (if n \<le> 2 then x
      else fmul rt x (fdiv rt (fone rt) (fof_nat rt ((n - 1) * (n - 2)))))"

definition betweenness_centrality ::
  "'f runtime \<Rightarrow> ('n \<Rightarrow> 'n \<Rightarrow> bool) \<Rightarrow> 'n graph \<Rightarrow> ('n \<times> 'f) list option" where
  "betweenness_centrality rt ne G =
     (case accumulate_sources rt ne G (nodes G) (\<lambda>_. fzero rt) of
        None \<Rightarrow> None
      | Some betweenness \<Rightarrow>
          Some (map (\<lambda>n. (n, rescale rt (length G) (betweenness n))) (nodes G)))"

subsection \<open>Sorting\<close>

text \<open>
  \<^verbatim>\<open>list.sort(key=f, reverse=True)\<close> compares keys with \<^verbatim>\<open><\<close> only and is stable. Where
  \<^verbatim>\<open><\<close> orders the keys of the list (no key is NaN), the keys of the result descend and
  elements with equal keys keep the order they had, whatever the algorithm. Otherwise the
  result depends on the comparisons that the algorithm makes; here each element, from the
  last to the first, goes in front of the first element that is not greater.
\<close>

fun insort_desc :: "('k \<Rightarrow> 'k \<Rightarrow> bool) \<Rightarrow> ('a \<Rightarrow> 'k) \<Rightarrow> 'a \<Rightarrow> 'a list \<Rightarrow> 'a list" where
  "insort_desc lt f x [] = [x]"
| "insort_desc lt f x (y # ys) =
     (if lt (f x) (f y) then y # insort_desc lt f x ys else x # y # ys)"

definition sort_desc :: "('k \<Rightarrow> 'k \<Rightarrow> bool) \<Rightarrow> ('a \<Rightarrow> 'k) \<Rightarrow> 'a list \<Rightarrow> 'a list" where
  "sort_desc lt f xs = foldr (insort_desc lt f) xs []"

text \<open>\<^verbatim>\<open><\<close> on the tuples of an integer and a float.\<close>

definition pair_less :: "'f runtime \<Rightarrow> nat \<times> 'f \<Rightarrow> nat \<times> 'f \<Rightarrow> bool" where
  "pair_less rt p q = (fst p < fst q \<or> (fst p = fst q \<and> fless rt (snd p) (snd q)))"

subsection \<open>Analysis of the spread\<close>

datatype py_error = KeyError

record 'f risk_entry =
  risk_location :: cell
  risk_centrality :: 'f
  risk_alert_level :: 'f
  risk_score :: 'f

record 'f cluster =
  cluster_id :: nat
  cluster_locations :: "cell list"
  cluster_size :: nat
  avg_alert_level :: 'f

record 'f spread_path =
  path_from :: cell
  path_to :: cell
  path_betweenness :: 'f
  shared_disasters :: "cell list"
  connection_strength :: int

record 'f results =
  high_risk_locations :: "'f risk_entry list"
  disaster_clusters :: "'f cluster list"
  potential_spread_paths :: "'f spread_path list"

text \<open>
  \<^verbatim>\<open>df.groupby('location')['alert_level'].mean().to_dict()\<close>: the mean of the severities
  of the rows of each location; the rows without a location are in no group.
\<close>

definition loc_alert_levels :: "'f runtime \<Rightarrow> 'f dataframe \<Rightarrow> cell \<rightharpoonup> 'f" where
  "loc_alert_levels rt df loc =
     (let xs = map alert_level (filter (\<lambda>r. cell_eq (location r) loc) (rows df))
      in if xs = [] then None else Some (series_mean rt xs))"

text \<open>The loop over \<^verbatim>\<open>centrality.items()\<close>, with the threshold 0.5.\<close>

fun risk_entries ::
  "'f runtime \<Rightarrow> (cell \<rightharpoonup> 'f) \<Rightarrow> (cell \<times> 'f) list \<Rightarrow> 'f risk_entry list" where
  "risk_entries rt alerts [] = []"
| "risk_entries rt alerts ((loc, cent) # cs) =
     (case alerts loc of
        Some alert \<Rightarrow>
          (let risk_score = fmul rt cent alert
           in if fless rt (fhalf rt) risk_score
              then \<lparr>risk_location = loc, risk_centrality = cent, risk_alert_level = alert,
                     risk_score = risk_score\<rparr> # risk_entries rt alerts cs
              else risk_entries rt alerts cs)
      | None \<Rightarrow> risk_entries rt alerts cs)"

text \<open>
  The loop over \<^verbatim>\<open>enumerate(communities)\<close>; \<^verbatim>\<open>loc_alert_levels.get(loc, 0)\<close> is 0 for
  a location without a mean. Each community is given as the list that
  \<^verbatim>\<open>list(community)\<close> makes of it.
\<close>

definition get_or :: "('k \<rightharpoonup> 'v) \<Rightarrow> 'k \<Rightarrow> 'v \<Rightarrow> 'v" where
  "get_or m k d = (case m k of None \<Rightarrow> d | Some v \<Rightarrow> v)"

fun clusters_from ::
  "'f runtime \<Rightarrow> (cell \<rightharpoonup> 'f) \<Rightarrow> nat \<Rightarrow> cell list list \<Rightarrow> 'f cluster list" where
  "clusters_from rt alerts i [] = []"
| "clusters_from rt alerts i (community_list # cs) =
     (if length community_list > 1
      then \<lparr>cluster_id = i, cluster_locations = community_list,
             cluster_size = length community_list,
             avg_alert_level =
               np_mean rt (map (\<lambda>loc. get_or alerts loc (fzero rt)) community_list)\<rparr>
           # clusters_from rt alerts (i + 1) cs
      else clusters_from rt alerts (i + 1) cs)"

text \<open>
  The loop over \<^verbatim>\<open>G.edges(data=True)\<close>, with the threshold 0.1; \<^verbatim>\<open>betweenness[u]\<close>
  raises \<^verbatim>\<open>KeyError\<close> for a missing key.
\<close>

fun spread_entries ::
  "'f runtime \<Rightarrow> (cell \<times> 'f) list \<Rightarrow> (cell \<times> cell \<times> edge_data) list
     \<Rightarrow> py_error + 'f spread_path list" where
  "spread_entries rt betweenness [] = Inr []"
| "spread_entries rt betweenness ((u, v, data) # es) =
     (case (map_of betweenness u, map_of betweenness v) of
        (Some bu, Some bv) \<Rightarrow>
          (case spread_entries rt betweenness es of
             Inl e \<Rightarrow> Inl e
           | Inr paths \<Rightarrow>
               (let edge_betweenness = fadd rt bu bv
                in if fless rt (ftenth rt) edge_betweenness
                   then Inr (\<lparr>path_from = u, path_to = v, path_betweenness = edge_betweenness,
                               shared_disasters = list_of_set rt (disasters data),
                               connection_strength = weight data\<rparr> # paths)
                   else Inr paths))
      | _ \<Rightarrow> Inl KeyError)"

text \<open>
  \<^verbatim>\<open>analyze_disaster_spread(G, df)\<close>. The communities are the result of
  \<^verbatim>\<open>nx.community.louvain_communities(G)\<close>, which draws on the random state of the
  interpreter: they are an argument here.
\<close>

definition analyze_disaster_spread ::
  "'f runtime \<Rightarrow> cell graph \<Rightarrow> 'f dataframe \<Rightarrow> cell list list \<Rightarrow> py_error + 'f results" where
  "analyze_disaster_spread rt G df communities =
     (let centrality = degree_centrality rt G
      in case betweenness_centrality rt cell_ne G of
           None \<Rightarrow> Inl KeyError
         | Some betweenness \<Rightarrow>
             (let alerts = loc_alert_levels rt df;
                  risks = sort_desc (fless rt) risk_score (risk_entries rt alerts centrality);
                  clusters = sort_desc (pair_less rt) (\<lambda>x. (cluster_size x, avg_alert_level x))
                               (clusters_from rt alerts 0 communities)
              in case spread_entries rt betweenness (edges G) of
                   Inl e \<Rightarrow> Inl e
                 | Inr paths \<Rightarrow>
                     Inr \<lparr>high_risk_locations = risks, disaster_clusters = clusters,
                          potential_spread_paths =
                            sort_desc (fless rt) path_betweenness paths\<rparr>))"

subsection \<open>The report\<close>

record 'f report =
  locations_analyzed :: nat
  disaster_types_analyzed :: "cell list"
  report_high_risk_locations :: "'f risk_entry list"
  report_disaster_clusters :: "'f cluster list"
  report_potential_spread_paths :: "'f spread_path list"
  visualization_path :: string

text \<open>
  What \<^verbatim>\<open>generate_link_analysis_report\<close> does: it returns a message, returns the report
  dictionary, or an exception leaves it.
\<close>

datatype 'f outcome =
  is_Message: Message string | is_Report: Report "'f report" | is_Raised: Raised py_error

definition required_columns :: "string list" where
  "required_columns = [''location'', ''disaster_type'', ''alert_level'']"

text \<open>The text that an f-string makes of a list of strings without quotes in them.\<close>

fun join :: "string \<Rightarrow> string list \<Rightarrow> string" where
  "join sep [] = []"
| "join sep [x] = x"
| "join sep (x # y # ys) = x @ sep @ join sep (y # ys)"

definition str_of_list :: "string list \<Rightarrow> string" where
  "str_of_list xs = ''['' @ join '', '' (map (\<lambda>x. [CHR 0x27] @ x @ [CHR 0x27]) xs) @ '']''"

text \<open>
  \<^verbatim>\<open>generate_link_analysis_report()\<close>, from the data frame that
  \<^verbatim>\<open>fetch_disaster_data()\<close> returned. The time stamp of the report and the \<^verbatim>\<open>_id\<close> that
  storing the report adds to it are left out.
\<close>

definition generate_link_analysis_report ::
  "'f runtime \<Rightarrow> 'f dataframe \<Rightarrow> cell list list \<Rightarrow> 'f outcome" where
  "generate_link_analysis_report rt df communities =
     (if empty_df df then Message ''No disaster data available for analysis.''
      else
        (let missing_columns = filter (\<lambda>col. col \<notin> set (columns df)) required_columns
         in if missing_columns \<noteq> []
            then Message (''Missing required columns: '' @ str_of_list missing_columns)
            else
              (let G = build_location_graph df
               in case analyze_disaster_spread rt G df communities of
                    Inl e \<Rightarrow> Raised e
                  | Inr analysis_results \<Rightarrow>
                      Report
                        \<lparr>locations_analyzed = length (unique (map location (rows df))),
                         disaster_types_analyzed = unique (map disaster_type (rows df)),
                         report_high_risk_locations = take 5 (high_risk_locations analysis_results),
                         report_disaster_clusters = disaster_clusters analysis_results,
                         report_potential_spread_paths =
                           take 10 (potential_spread_paths analysis_results),
                         visualization_path = ''disaster_network.png''\<rparr>)))"

subsection \<open>The exact runtime\<close>

text \<open>
  Floats idealised: a rational number or NaN. The arithmetic is exact, an operation on NaN
  gives NaN, a comparison with NaN is false. \<^verbatim>\<open>Series.mean\<close> is the mean of the numbers of
  the group and NaN when there is none; \<^verbatim>\<open>np.mean\<close> is NaN when an element is. A set is
  listed in ascending order.
\<close>

datatype xfloat = Num rat | NaN

fun xlift :: "(rat \<Rightarrow> rat \<Rightarrow> rat) \<Rightarrow> xfloat \<Rightarrow> xfloat \<Rightarrow> xfloat" where
  "xlift f (Num a) (Num b) = Num (f a b)"
| "xlift f _ _ = NaN"

fun xdiv :: "xfloat \<Rightarrow> xfloat \<Rightarrow> xfloat" where
  "xdiv (Num a) (Num b) = (if b = 0 then NaN else Num (a / b))"
| "xdiv _ _ = NaN"

fun xless :: "xfloat \<Rightarrow> xfloat \<Rightarrow> bool" where
  "xless (Num a) (Num b) = (a < b)"
| "xless _ _ = False"

fun numbers :: "xfloat list \<Rightarrow> rat list" where
  "numbers [] = []"
| "numbers (Num a # xs) = a # numbers xs"
| "numbers (NaN # xs) = numbers xs"

definition xseries_mean :: "xfloat list \<Rightarrow> xfloat" where
  "xseries_mean xs =
     (if numbers xs = [] then NaN
      else Num (sum_list (numbers xs) / of_nat (length (numbers xs))))"

definition xnp_mean :: "xfloat list \<Rightarrow> xfloat" where
  "xnp_mean xs =
     (if xs = [] \<or> NaN \<in> set xs then NaN else Num (sum_list (numbers xs) / of_nat (length xs)))"

definition exact :: "xfloat runtime" where
  "exact =
     \<lparr>fzero = Num 0, fone = Num 1, fhalf = Num (1 / 2), ftenth = Num (1 / 10),
      fof_nat = (\<lambda>n. Num (of_nat n)),
      fadd = xlift (+), fsub = xlift (-), fmul = xlift (*), fdiv = xdiv, fless = xless,
      series_mean = xseries_mean, np_mean = xnp_mean,
      list_of_set = sorted_list_of_set\<rparr>"

section \<open>Notions of the statements and example data\<close>

text \<open>
  A graph represents a symmetric table \<open>E\<close> of finite sets of disasters when its edges are
  the pairs with a non-empty set, each with that set and its cardinality as weight.
\<close>

definition represents :: "cell graph \<Rightarrow> (cell \<Rightarrow> cell \<Rightarrow> cell set) \<Rightarrow> bool" where
  "represents G E \<longleftrightarrow>
     (\<forall>u v. E u v = E v u) \<and> (\<forall>u v. finite (E u v)) \<and>
     (\<forall>u v. get_edge_data G u v =
        (if E u v = {} then None else Some \<lparr>weight = int (card (E u v)), disasters = E u v\<rparr>))"

text \<open>The disasters of \<open>D\<close> that affect two different locations both.\<close>

definition shared :: "'f dataframe \<Rightarrow> cell set \<Rightarrow> cell \<Rightarrow> cell \<Rightarrow> cell set" where
  "shared df D u v =
     {d \<in> D. u \<noteq> v \<and> u \<in> set (affected_locations df d) \<and> v \<in> set (affected_locations df d)}"

text \<open>The nodes that are a neighbour of some node: all that a search can find.\<close>

definition reach :: "'n graph \<Rightarrow> 'n set" where
  "reach G = (\<Union>v \<in> set (nodes G). set (neighbors G v))"

text \<open>
  The graphs that \<^verbatim>\<open>nx.Graph\<close> holds when no edge joins a node to itself: the keys are
  distinct, and the neighbours of a node are distinct nodes other than itself.
\<close>

definition simple_graph :: "'n graph \<Rightarrow> bool" where
  "simple_graph G \<longleftrightarrow>
     distinct (nodes G) \<and>
     list_all (\<lambda>(n, nbrs). distinct (map fst nbrs) \<and> n \<notin> set (map fst nbrs) \<and>
                            set (map fst nbrs) \<subseteq> set (nodes G)) G"

text \<open>
  Five incidents at three locations: floods at A and B, earthquakes at A, C and B.
\<close>

definition incident_at :: "string \<Rightarrow> string \<Rightarrow> rat \<Rightarrow> xfloat incident" where
  "incident_at l d a = \<lparr>location = Some l, disaster_type = Some d, alert_level = Num a\<rparr>"

definition example_df :: "xfloat dataframe" where
  "example_df =
     \<lparr>columns = [''location'', ''disaster_type'', ''alert_level''],
      rows = [incident_at ''A'' ''flood'' 3, incident_at ''B'' ''flood'' 4,
              incident_at ''A'' ''earthquake'' 2, incident_at ''C'' ''earthquake'' 5,
              incident_at ''B'' ''earthquake'' 1]\<rparr>"

text \<open>
  A comparison orders a set of keys when on it it is asymmetric and transitive and so is
  its negation: the keys fall into ranks that the comparison orders. Python's \<^verbatim>\<open><\<close> orders
  every set of floats without NaN. Two keys have the same rank when neither is less.
\<close>

definition weak_order_on :: "('k \<Rightarrow> 'k \<Rightarrow> bool) \<Rightarrow> 'k set \<Rightarrow> bool" where
  "weak_order_on lt A \<longleftrightarrow>
     (\<forall>x \<in> A. \<forall>y \<in> A. lt x y \<longrightarrow> \<not> lt y x) \<and>
     (\<forall>x \<in> A. \<forall>y \<in> A. \<forall>z \<in> A. lt x y \<longrightarrow> lt y z \<longrightarrow> lt x z) \<and>
     (\<forall>x \<in> A. \<forall>y \<in> A. \<forall>z \<in> A. \<not> lt x y \<longrightarrow> \<not> lt y z \<longrightarrow> \<not> lt x z)"

definition same_rank :: "('k \<Rightarrow> 'k \<Rightarrow> bool) \<Rightarrow> 'k \<Rightarrow> 'k \<Rightarrow> bool" where
  "same_rank lt a b \<longleftrightarrow> \<not> lt a b \<and> \<not> lt b a"

text \<open>The sum of the betweenness of two nodes, and the entry of an edge in the result.\<close>

definition edge_sum :: "'f runtime \<Rightarrow> (cell \<times> 'f) list \<Rightarrow> cell \<Rightarrow> cell \<Rightarrow> 'f" where
  "edge_sum rt b u v =
     fadd rt (get_or (map_of b) u (fzero rt)) (get_or (map_of b) v (fzero rt))"

definition path_entry ::
  "'f runtime \<Rightarrow> (cell \<times> 'f) list \<Rightarrow> cell \<times> cell \<times> edge_data \<Rightarrow> 'f spread_path" where
  "path_entry rt b e =
     (case e of (u, v, data) \<Rightarrow>
        \<lparr>path_from = u, path_to = v, path_betweenness = edge_sum rt b u v,
         shared_disasters = list_of_set rt (disasters data),
         connection_strength = weight data\<rparr>)"

text \<open>
  More data: the empty frame that \<^verbatim>\<open>pd.DataFrame()\<close> is; one incident; records without a
  disaster type and without an alert level; a record without a location.
\<close>

definition no_data :: "xfloat dataframe" where
  "no_data = \<lparr>columns = [], rows = []\<rparr>"

definition lone_df :: "xfloat dataframe" where
  "lone_df = \<lparr>columns = required_columns, rows = [incident_at ''A'' ''flood'' 3]\<rparr>"

definition partial_df :: "xfloat dataframe" where
  "partial_df =
     \<lparr>columns = required_columns,
      rows = [incident_at ''A'' ''flood'' 3, incident_at ''B'' ''flood'' 4,
              \<lparr>location = Some ''C'', disaster_type = None, alert_level = Num 5\<rparr>,
              \<lparr>location = Some ''D'', disaster_type = Some ''flood'', alert_level = NaN\<rparr>]\<rparr>"

definition nan_df :: "xfloat dataframe" where
  "nan_df =
     \<lparr>columns = required_columns,
      rows = [incident_at ''A'' ''flood'' 3,
              \<lparr>location = None, disaster_type = Some ''flood'', alert_level = Num 4\<rparr>]\<rparr>"

text \<open>
  The risk score of an entry of the centrality table, none without a mean alert level; and
  the entries of the table whose score, above the threshold, has the rank of a given score.
\<close>

definition risk_of :: "'f runtime \<Rightarrow> (cell \<rightharpoonup> 'f) \<Rightarrow> cell \<times> 'f \<Rightarrow> 'f option" where
  "risk_of rt alerts p =
     (case alerts (fst p) of None \<Rightarrow> None | Some alert \<Rightarrow> Some (fmul rt (snd p) alert))"

definition ranks_with :: "'f runtime \<Rightarrow> (cell \<rightharpoonup> 'f) \<Rightarrow> 'f \<Rightarrow> cell \<times> 'f \<Rightarrow> bool" where
  "ranks_with rt alerts k p =
     (case risk_of rt alerts p of
        None \<Rightarrow> False
      | Some s \<Rightarrow> fless rt (fhalf rt) s \<and> same_rank (fless rt) s k)"

text \<open>The scenario of four records: a flood at A and B, an earthquake at A and C.\<close>

definition scenario_df :: "xfloat dataframe" where
  "scenario_df =
     \<lparr>columns = required_columns,
      rows = [incident_at ''A'' ''flood'' 3, incident_at ''B'' ''flood'' 4,
              incident_at ''A'' ''earthquake'' 2, incident_at ''C'' ''earthquake'' 5]\<rparr>"

text \<open>The analysis of the scenario, with its three locations as one community.\<close>

definition scenario_results :: "xfloat results" where
  "scenario_results =
     \<lparr>high_risk_locations =
        [\<lparr>risk_location = Some ''A'', risk_centrality = Num 1, risk_alert_level = Num (5 / 2),
           risk_score = Num (5 / 2)\<rparr>,
         \<lparr>risk_location = Some ''C'', risk_centrality = Num (1 / 2), risk_alert_level = Num 5,
           risk_score = Num (5 / 2)\<rparr>,
         \<lparr>risk_location = Some ''B'', risk_centrality = Num (1 / 2), risk_alert_level = Num 4,
           risk_score = Num 2\<rparr>],
      disaster_clusters =
        [\<lparr>cluster_id = 0, cluster_locations = [Some ''A'', Some ''B'', Some ''C''], cluster_size = 3,
           avg_alert_level = Num (23 / 6)\<rparr>],
      potential_spread_paths =
        [\<lparr>path_from = Some ''A'', path_to = Some ''B'', path_betweenness = Num 1,
           shared_disasters = [Some ''flood''], connection_strength = 1\<rparr>,
         \<lparr>path_from = Some ''A'', path_to = Some ''C'', path_betweenness = Num 1,
           shared_disasters = [Some ''earthquake''], connection_strength = 1\<rparr>]\<rparr>"




text \<open>
  An outcome without what the draws of a run decide: the clusters, and the order in which
  each spread path lists its disasters.
\<close>

definition without_draws :: "'f outcome \<Rightarrow> 'f outcome" where
  "without_draws out =
     (case out of
        Report r \<Rightarrow>
          Report (r\<lparr>report_disaster_clusters := [],
                   report_potential_spread_paths :=
                     map (\<lambda>p. p\<lparr>shared_disasters := sorted_list_of_set (set (shared_disasters p))\<rparr>)
                       (report_potential_spread_paths r)\<rparr>)
      | _ \<Rightarrow> out)"

text \<open>
  Six records: a flood and an earthquake at both A and B, a fire at B and C. A set listed
  in descending order.
\<close>

definition twice_df :: "xfloat dataframe" where
  "twice_df =
     \<lparr>columns = required_columns,
      rows = [incident_at ''A'' ''flood'' 3, incident_at ''B'' ''flood'' 4,
              incident_at ''A'' ''earthquake'' 2, incident_at ''B'' ''earthquake'' 5,
              incident_at ''B'' ''fire'' 1, incident_at ''C'' ''fire'' 1]\<rparr>"

definition descending :: "cell set \<Rightarrow> cell list" where
  "descending S = rev (sorted_list_of_set S)"

section \<open>Properties\<close>

subsection \<open>The search of the betweenness routine terminates\<close>

lemma finite_reach: "finite (reach G)" by (simp add: reach_def)

lemma neighbors_reach: "set (neighbors G v) \<subseteq> reach G"
proof (cases "map_of G v")
  case None
  then show ?thesis by (simp add: neighbors_def)
next
  case (Some nbrs)
  then have "v \<in> set (nodes G)" by (auto simp: nodes_def dest: map_of_SomeD intro: rev_image_eqI)
  then show ?thesis by (auto simp: reach_def)
qed

lemma visit_measure:
  assumes "visit rt v Dv sv w (Q, D, sigma, P) = (Q', D', sigma', P')" "w \<in> U" "finite U"
  shows "card (U - dom D') + length Q' = card (U - dom D) + length Q"
proof (cases "D w")
  case None
  then have w: "w \<in> U - dom D" using assms(2) by auto
  have "U - dom D' = (U - dom D) - {w}" "Q' = Q @ [w]"
    using assms(1) None by (auto simp: visit_def split: if_splits)
  moreover have "card (U - dom D) > 0" using w assms(3) by (auto simp: card_gt_0_iff)
  ultimately show ?thesis using w assms(3) by (simp add: card_Diff_singleton)
next
  case (Some a)
  then show ?thesis using assms(1) by (auto simp: visit_def split: if_splits)
qed

lemma fold_visit_measure:
  "fold (visit rt v Dv sv) ws (Q, D, sigma, P) = (Q', D', sigma', P') \<Longrightarrow> set ws \<subseteq> U \<Longrightarrow> finite U \<Longrightarrow>
   card (U - dom D') + length Q' = card (U - dom D) + length Q"
proof (induction ws arbitrary: Q D sigma P)
  case Nil
  then show ?case by simp
next
  case (Cons w ws)
  obtain Q1 D1 s1 P1 where st: "visit rt v Dv sv w (Q, D, sigma, P) = (Q1, D1, s1, P1)"
    by (cases "visit rt v Dv sv w (Q, D, sigma, P)") auto
  from Cons.prems st have "fold (visit rt v Dv sv) ws (Q1, D1, s1, P1) = (Q', D', sigma', P')" by simp
  from Cons.IH[OF this] Cons.prems have "card (U - dom D') + length Q' = card (U - dom D1) + length Q1" by simp
  also have "\<dots> = card (U - dom D) + length Q"
    using visit_measure[OF st] Cons.prems by simp
  finally show ?case .
qed

termination bfs
  apply (relation "measure (\<lambda>(rt, G, S, D, sigma, P, Q). card (reach G - dom D) + length Q)")
   apply simp
  apply clarsimp
  subgoal premises prems for rt G D sigma P v Q Dv Q' D' sigma' P'
    using fold_visit_measure[OF prems(2)[symmetric] neighbors_reach finite_reach] by simp
  done

subsection \<open>The edges of the co-occurrence graph\<close>

lemma set_unique: "set (unique xs) = set xs" by (simp add: unique_def)
lemma distinct_unique: "distinct (unique xs)" by (simp add: unique_def)

lemma get_edge_data_add_node: "get_edge_data (add_node n G) u v = get_edge_data G u v"
  by (auto simp: get_edge_data_def add_node_def nodes_def map_of_append map_add_def
      split: option.splits dest: map_of_SomeD weak_map_of_SomeI)

lemma get_edge_data_set_adj:
  "get_edge_data (set_adj a b dd G) u v = (if u = a \<and> v = b then Some dd else get_edge_data G u v)"
  by (auto simp: get_edge_data_def set_adj_def update_conv' split: option.splits)

lemma get_edge_data_set_edge:
  "get_edge_data (set_edge a b dd G) u v =
     (if (u = a \<and> v = b) \<or> (u = b \<and> v = a) then Some dd else get_edge_data G u v)"
  unfolding set_edge_def
  apply (subst get_edge_data_set_adj)
  apply (subst get_edge_data_set_adj)
  apply (cases "u = a"; cases "v = b"; cases "u = b"; cases "v = a"; simp)
  done

lemma get_edge_data_add_edge:
  "get_edge_data (add_edge a b dd G) u v =
     (if (u = a \<and> v = b) \<or> (u = b \<and> v = a) then Some dd else get_edge_data G u v)"
  unfolding add_edge_def
  apply (subst get_edge_data_set_edge)
  apply (simp only: get_edge_data_add_node)
  done

lemma represents_connect:
  assumes "represents G E" "d \<notin> E a b"
  shows "represents (connect d (a, b) G)
           (\<lambda>u v. if (u = a \<and> v = b) \<or> (u = b \<and> v = a) then insert d (E u v) else E u v)"
  using assms unfolding represents_def connect_def
  apply (intro conjI allI)
    apply (auto simp: get_edge_data_set_edge get_edge_data_add_edge split: option.splits)
  done

lemma pairs_mem: "(a, b) \<in> set (pairs xs) \<Longrightarrow> a \<in> set xs \<and> b \<in> set xs"
  by (induction xs) auto

lemma pairs_distinct_mem: "distinct xs \<Longrightarrow> (a, b) \<in> set (pairs xs) \<Longrightarrow> a \<noteq> b \<and> (b, a) \<notin> set (pairs xs)"
  by (induction xs) (auto dest: pairs_mem)

lemma distinct_pairs: "distinct xs \<Longrightarrow> distinct (pairs xs)"
  by (induction xs) (auto simp: distinct_map inj_on_def dest: pairs_mem)

lemma pairs_total: "a \<in> set xs \<Longrightarrow> b \<in> set xs \<Longrightarrow> a \<noteq> b \<Longrightarrow> (a, b) \<in> set (pairs xs) \<or> (b, a) \<in> set (pairs xs)"
  by (induction xs) auto

lemma represents_fold_connect:
  "represents G E \<Longrightarrow> distinct ps \<Longrightarrow> (\<forall>(a, b) \<in> set ps. (b, a) \<notin> set ps \<and> d \<notin> E a b) \<Longrightarrow>
   represents (fold (connect d) ps G)
     (\<lambda>u v. if (u, v) \<in> set ps \<or> (v, u) \<in> set ps then insert d (E u v) else E u v)"
proof (induction ps arbitrary: G E)
  case Nil
  then show ?case by simp
next
  case (Cons p ps)
  obtain a b where p: "p = (a, b)" by (cases p)
  let ?E1 = "\<lambda>u v. if (u = a \<and> v = b) \<or> (u = b \<and> v = a) then insert d (E u v) else E u v"
  from Cons.prems p have "d \<notin> E a b" by auto
  with Cons.prems(1) have r1: "represents (connect d (a, b) G) ?E1"
    by (rule represents_connect)
  have cond: "\<forall>(a', b') \<in> set ps. (b', a') \<notin> set ps \<and> d \<notin> ?E1 a' b'"
    using Cons.prems(2,3) p by auto
  have "distinct ps" using Cons.prems(2) by simp
  from Cons.IH[OF r1 this cond]
  have "represents (fold (connect d) ps (connect d (a, b) G))
     (\<lambda>u v. if (u, v) \<in> set ps \<or> (v, u) \<in> set ps then insert d (?E1 u v) else ?E1 u v)" .
  moreover have "(\<lambda>u v. if (u, v) \<in> set ps \<or> (v, u) \<in> set ps then insert d (?E1 u v) else ?E1 u v)
     = (\<lambda>u v. if (u, v) \<in> set (p # ps) \<or> (v, u) \<in> set (p # ps) then insert d (E u v) else E u v)"
    using p by (auto simp: fun_eq_iff)
  ultimately show ?case using p by simp
qed

lemma short_list_eq: "length xs \<le> 1 \<Longrightarrow> u \<in> set xs \<Longrightarrow> v \<in> set xs \<Longrightarrow> u = v"
  by (cases xs) auto

lemma represents_connect_disaster:
  assumes "represents G (shared df D)" "d \<notin> D"
  shows "represents (connect_disaster df d G) (shared df (insert d D))"
proof (cases "length (affected_locations df d) > 1")
  case False
  then have "\<And>u v. u \<in> set (affected_locations df d) \<Longrightarrow> v \<in> set (affected_locations df d) \<Longrightarrow> u = v"
    by (intro short_list_eq[of "affected_locations df d"]) auto
  then have "shared df (insert d D) = shared df D"
    by (auto simp: shared_def fun_eq_iff)
  with False assms show ?thesis by (simp add: connect_disaster_def)
next
  case True
  let ?xs = "affected_locations df d"
  have dx: "distinct ?xs" by (simp add: affected_locations_def distinct_unique)
  have "represents (fold (connect d) (pairs ?xs) G)
     (\<lambda>u v. if (u, v) \<in> set (pairs ?xs) \<or> (v, u) \<in> set (pairs ?xs)
            then insert d (shared df D u v) else shared df D u v)"
  proof (rule represents_fold_connect[OF assms(1) distinct_pairs[OF dx]])
    show "\<forall>(a, b)\<in>set (pairs ?xs). (b, a) \<notin> set (pairs ?xs) \<and> d \<notin> shared df D a b"
      using assms(2) dx by (auto simp: shared_def dest: pairs_distinct_mem)
  qed
  moreover have "(\<lambda>u v. if (u, v) \<in> set (pairs ?xs) \<or> (v, u) \<in> set (pairs ?xs)
            then insert d (shared df D u v) else shared df D u v) = shared df (insert d D)"
    using dx pairs_total[of _ ?xs] 
    by (auto simp: fun_eq_iff shared_def dest: pairs_mem pairs_distinct_mem)
  ultimately show ?thesis using True by (simp add: connect_disaster_def)
qed

lemma represents_fold_connect_disaster:
  "represents G (shared df D) \<Longrightarrow> distinct ds \<Longrightarrow> set ds \<inter> D = {} \<Longrightarrow>
   represents (fold (connect_disaster df) ds G) (shared df (D \<union> set ds))"
proof (induction ds arbitrary: G D)
  case Nil
  then show ?case by simp
next
  case (Cons d ds)
  from Cons.prems have "represents (connect_disaster df d G) (shared df (insert d D))"
    by (intro represents_connect_disaster) auto
  from Cons.IH[OF this] Cons.prems(2,3) show ?case by simp
qed

lemma get_edge_data_fold_add_node: "get_edge_data (fold add_node ns G) u v = get_edge_data G u v"
  by (induction ns arbitrary: G) (simp_all add: get_edge_data_add_node)

lemma represents_build:
  "represents (build_location_graph df) (shared df (set (map disaster_type (rows df))))"
proof -
  have "represents (fold add_node (unique (map location (rows df))) []) (shared df {})"
    by (simp add: represents_def shared_def get_edge_data_fold_add_node) (simp add: get_edge_data_def)
  from represents_fold_connect_disaster[OF this distinct_unique, of "map disaster_type (rows df)"]
  show ?thesis by (simp add: build_location_graph_def set_unique)
qed

text \<open>
  C1. After \<^verbatim>\<open>build_location_graph\<close>, the weight of every edge is the number of the
  disasters stored on it and is at least 1; the disasters stored on the edge between two
  locations are the disaster types of the data that affect both, each counted once.
\<close>

theorem edge_weight_counts_disasters:
  assumes "get_edge_data (build_location_graph df) u v = Some dd"
  shows "weight dd = int (card (disasters dd)) \<and> 1 \<le> weight dd \<and>
         disasters dd = {d \<in> set (map disaster_type (rows df)).
                          u \<in> set (affected_locations df d) \<and> v \<in> set (affected_locations df d)}"
proof -
  let ?S = "shared df (set (map disaster_type (rows df))) u v"
  from represents_build[of df] assms
  have fin: "finite ?S" and ne: "?S \<noteq> {}" and dd: "dd = \<lparr>weight = int (card ?S), disasters = ?S\<rparr>"
    by (auto simp: represents_def split: if_splits)
  from fin ne have "card ?S \<ge> 1" by (simp add: Suc_le_eq card_gt_0_iff)
  moreover from ne have "u \<noteq> v" by (auto simp: shared_def)
  ultimately show ?thesis using dd by (auto simp: shared_def)
qed

theorem edge_weight_counts_disasters_witness:
  "get_edge_data (build_location_graph example_df) (Some ''A'') (Some ''B'')
     = Some \<lparr>weight = 2, disasters = {Some ''flood'', Some ''earthquake''}\<rparr> \<and>
   (2::int) = int (card {Some ''flood'', Some ''earthquake''}) \<and> (1::int) \<le> 2 \<and>
   {Some ''flood'', Some ''earthquake''} =
     {d \<in> set (map disaster_type (rows example_df)).
        Some ''A'' \<in> set (affected_locations example_df d) \<and>
        Some ''B'' \<in> set (affected_locations example_df d)}"
proof -
  have e: "get_edge_data (build_location_graph example_df) (Some ''A'') (Some ''B'')
     = Some \<lparr>weight = 2, disasters = {Some ''flood'', Some ''earthquake''}\<rparr>"
    by code_simp
  note t = edge_weight_counts_disasters[OF e, unfolded edge_data.select_convs]
  show ?thesis by (rule conjI[OF e t])
qed

subsection \<open>The structure of the graph\<close>

lemma simple_graphI:
  assumes "distinct (nodes G)"
    and "\<And>n nbrs. map_of G n = Some nbrs \<Longrightarrow> distinct (map fst nbrs)"
    and "\<And>n nbrs w dd. map_of G n = Some nbrs \<Longrightarrow> (w, dd) \<in> set nbrs \<Longrightarrow> w \<noteq> n \<and> w \<in> set (nodes G)"
  shows "simple_graph G"
proof -
  have m: "map_of G n = Some nbrs" if "(n, nbrs) \<in> set G" for n nbrs
    using that assms(1) by (simp add: nodes_def)
  show ?thesis
    unfolding simple_graph_def list_all_iff
  proof (intro conjI ballI)
    show "distinct (nodes G)" by (rule assms(1))
  next
    fix x assume x: "x \<in> set G"
    obtain n nbrs where xe: "x = (n, nbrs)" by (cases x)
    from x xe have mo: "map_of G n = Some nbrs" by (simp add: m)
    have "distinct (map fst nbrs)" using assms(2)[OF mo] .
    moreover have "n \<notin> set (map fst nbrs)" using assms(3)[OF mo] by fastforce
    moreover have "set (map fst nbrs) \<subseteq> set (nodes G)" using assms(3)[OF mo] by auto
    ultimately show "case x of (n, nbrs) \<Rightarrow> distinct (map fst nbrs) \<and> n \<notin> set (map fst nbrs) \<and>
                            set (map fst nbrs) \<subseteq> set (nodes G)"
      by (simp add: xe)
  qed
qed

lemma simple_graph_distinct: "simple_graph G \<Longrightarrow> distinct (nodes G)"
  by (simp add: simple_graph_def)

lemma simple_graph_nbrs:
  assumes "simple_graph G" "map_of G n = Some nbrs"
  shows "distinct (map fst nbrs)" and "\<And>w dd. (w, dd) \<in> set nbrs \<Longrightarrow> w \<noteq> n \<and> w \<in> set (nodes G)"
proof -
  from assms(2) have "(n, nbrs) \<in> set G" by (rule map_of_SomeD)
  with assms(1) have *: "distinct (map fst nbrs) \<and> n \<notin> set (map fst nbrs) \<and>
                            set (map fst nbrs) \<subseteq> set (nodes G)"
    unfolding simple_graph_def list_all_iff by blast
  then show "distinct (map fst nbrs)" by simp
  fix w dd assume "(w, dd) \<in> set nbrs"
  then have "w \<in> set (map fst nbrs)" by force
  with * show "w \<noteq> n \<and> w \<in> set (nodes G)" by blast
qed

lemma nodes_add_node: "nodes (add_node n G) = (if n \<in> set (nodes G) then nodes G else nodes G @ [n])"
  by (simp add: add_node_def nodes_def)

lemma map_of_add_node:
  assumes "n \<notin> set (nodes G)"
  shows "map_of (add_node n G) = (map_of G)(n \<mapsto> [])"
proof
  fix x
  from assms have "map_of G n = None" by (simp add: nodes_def map_of_eq_None_iff)
  then show "map_of (add_node n G) x = ((map_of G)(n \<mapsto> [])) x"
    using assms by (cases "map_of G x") (auto simp: add_node_def map_add_def)
qed

lemma simple_graph_add_node:
  assumes "simple_graph G"
  shows "simple_graph (add_node n G)"
proof (cases "n \<in> set (nodes G)")
  case True
  with assms show ?thesis by (simp add: add_node_def)
next
  case False
  show ?thesis
  proof (rule simple_graphI)
    show "distinct (nodes (add_node n G))"
      using False simple_graph_distinct[OF assms] by (simp add: nodes_add_node)
  next
    fix m nbrs assume "map_of (add_node n G) m = Some nbrs"
    then have "nbrs = [] \<or> map_of G m = Some nbrs"
      by (simp add: map_of_add_node[OF False] split: if_splits)
    then show "distinct (map fst nbrs)" using simple_graph_nbrs(1)[OF assms] by auto
  next
    fix m nbrs w dd assume "map_of (add_node n G) m = Some nbrs" "(w, dd) \<in> set nbrs"
    then have "map_of G m = Some nbrs"
      by (auto simp: map_of_add_node[OF False] split: if_splits)
    from simple_graph_nbrs(2)[OF assms this \<open>(w, dd) \<in> set nbrs\<close>]
    show "w \<noteq> m \<and> w \<in> set (nodes (add_node n G))" by (simp add: nodes_add_node)
  qed
qed

lemma nodes_set_adj: "u \<in> set (nodes G) \<Longrightarrow> nodes (set_adj u v dd G) = nodes G"
  by (simp add: set_adj_def nodes_def update_keys)

lemma map_of_set_adj:
  "map_of (set_adj u v dd G) =
     (map_of G)(u \<mapsto> AList.update v dd (case map_of G u of None \<Rightarrow> [] | Some nbrs \<Rightarrow> nbrs))"
  by (simp add: set_adj_def update_conv')

lemma set_update_cases: "(w, x) \<in> set (AList.update k v al) \<Longrightarrow> (w, x) = (k, v) \<or> (w, x) \<in> set al"
  by (induction al) (auto split: if_splits)

lemma simple_graph_set_adj:
  assumes "simple_graph G" "u \<in> set (nodes G)" "v \<in> set (nodes G)" "u \<noteq> v"
  shows "simple_graph (set_adj u v dd G)"
proof (rule simple_graphI)
  let ?old = "case map_of G u of None \<Rightarrow> [] | Some nbrs \<Rightarrow> nbrs"
  have old1: "distinct (map fst ?old)"
    using simple_graph_nbrs(1)[OF assms(1)] by (cases "map_of G u") auto
  have old2: "w \<noteq> u \<and> w \<in> set (nodes G)" if "(w, x) \<in> set ?old" for w x
    using simple_graph_nbrs(2)[OF assms(1)] that by (cases "map_of G u") auto
  show "distinct (nodes (set_adj u v dd G))"
    using simple_graph_distinct[OF assms(1)] by (simp add: nodes_set_adj[OF assms(2)])
  {
    fix n nbrs assume mo: "map_of (set_adj u v dd G) n = Some nbrs"
    then consider "n = u" "nbrs = AList.update v dd ?old" | "n \<noteq> u" "map_of G n = Some nbrs"
      by (auto simp: map_of_set_adj split: if_splits)
    then show "distinct (map fst nbrs)"
    proof cases
      case 1
      then show ?thesis using old1 by (simp add: distinct_update)
    next
      case 2
      then show ?thesis using simple_graph_nbrs(1)[OF assms(1)] by simp
    qed
    fix w x assume wx: "(w, x) \<in> set nbrs"
    from mo consider "n = u" "nbrs = AList.update v dd ?old" | "n \<noteq> u" "map_of G n = Some nbrs"
      by (auto simp: map_of_set_adj split: if_splits)
    then have "w \<noteq> n \<and> w \<in> set (nodes G)"
    proof cases
      case 1
      with wx have "(w, x) \<in> set (AList.update v dd ?old)" by simp
      then have "(w, x) = (v, dd) \<or> (w, x) \<in> set ?old" by (rule set_update_cases)
      then show ?thesis using old2[of w x] assms(3,4) 1(1) by blast
    next
      case 2
      then show ?thesis using simple_graph_nbrs(2)[OF assms(1) _ wx] by simp
    qed
    then show "w \<noteq> n \<and> w \<in> set (nodes (set_adj u v dd G))"
      by (simp add: nodes_set_adj[OF assms(2)])
  }
qed

lemma nodes_set_edge: "u \<in> set (nodes G) \<Longrightarrow> v \<in> set (nodes G) \<Longrightarrow> nodes (set_edge u v dd G) = nodes G"
  by (simp add: set_edge_def nodes_set_adj)

lemma simple_graph_set_edge:
  "simple_graph G \<Longrightarrow> u \<in> set (nodes G) \<Longrightarrow> v \<in> set (nodes G) \<Longrightarrow> u \<noteq> v \<Longrightarrow> simple_graph (set_edge u v dd G)"
  by (simp add: set_edge_def simple_graph_set_adj nodes_set_adj)

lemma add_node_id: "u \<in> set (nodes G) \<Longrightarrow> add_node u G = G"
  by (simp add: add_node_def)

lemma nodes_connect:
  "fst p \<in> set (nodes G) \<Longrightarrow> snd p \<in> set (nodes G) \<Longrightarrow> nodes (connect d p G) = nodes G"
  by (cases p) (simp add: connect_def add_edge_def add_node_id nodes_set_edge split: option.splits)

lemma simple_graph_connect:
  "simple_graph G \<Longrightarrow> fst p \<in> set (nodes G) \<Longrightarrow> snd p \<in> set (nodes G) \<Longrightarrow> fst p \<noteq> snd p \<Longrightarrow>
   simple_graph (connect d p G)"
  by (cases p) (simp add: connect_def add_edge_def add_node_id simple_graph_set_edge split: option.splits)

lemma fold_connect_structure:
  "simple_graph G \<Longrightarrow> \<forall>p \<in> set ps. fst p \<in> set (nodes G) \<and> snd p \<in> set (nodes G) \<and> fst p \<noteq> snd p \<Longrightarrow>
   simple_graph (fold (connect d) ps G) \<and> nodes (fold (connect d) ps G) = nodes G"
  by (induction ps arbitrary: G) (simp_all add: simple_graph_connect nodes_connect)

lemma affected_subset: "set (affected_locations df d) \<subseteq> set (map location (rows df))"
  by (auto simp: affected_locations_def set_unique)

lemma connect_disaster_structure:
  assumes "simple_graph G" "set (map location (rows df)) \<subseteq> set (nodes G)"
  shows "simple_graph (connect_disaster df d G) \<and> nodes (connect_disaster df d G) = nodes G"
proof -
  have "distinct (affected_locations df d)" by (simp add: affected_locations_def distinct_unique)
  then have "\<forall>p \<in> set (pairs (affected_locations df d)).
      fst p \<in> set (nodes G) \<and> snd p \<in> set (nodes G) \<and> fst p \<noteq> snd p"
  proof (intro ballI)
    fix p assume dx: "distinct (affected_locations df d)" and p: "p \<in> set (pairs (affected_locations df d))"
    obtain a b where pe: "p = (a, b)" by (cases p)
    from p pe pairs_mem[of a b] pairs_distinct_mem[OF dx, of a b]
    have "a \<in> set (affected_locations df d)" "b \<in> set (affected_locations df d)" "a \<noteq> b" by auto
    with assms(2) affected_subset[of df d] pe
    show "fst p \<in> set (nodes G) \<and> snd p \<in> set (nodes G) \<and> fst p \<noteq> snd p" by auto
  qed
  from fold_connect_structure[OF assms(1) this] assms(1)
  show ?thesis by (simp add: connect_disaster_def Let_def)
qed

lemma fold_connect_disaster_structure:
  "simple_graph G \<Longrightarrow> set (map location (rows df)) \<subseteq> set (nodes G) \<Longrightarrow>
   simple_graph (fold (connect_disaster df) ds G) \<and> nodes (fold (connect_disaster df) ds G) = nodes G"
  by (induction ds arbitrary: G) (simp_all add: connect_disaster_structure)

lemma fold_add_node_structure:
  "simple_graph G \<Longrightarrow> distinct ns \<Longrightarrow> set ns \<inter> set (nodes G) = {} \<Longrightarrow>
   simple_graph (fold add_node ns G) \<and> nodes (fold add_node ns G) = nodes G @ ns"
proof (induction ns arbitrary: G)
  case Nil
  then show ?case by simp
next
  case (Cons n ns)
  then have "simple_graph (add_node n G)" "nodes (add_node n G) = nodes G @ [n]"
    by (auto simp: simple_graph_add_node nodes_add_node)
  with Cons.IH[of "add_node n G"] Cons.prems show ?case by auto
qed

lemma build_structure:
  "simple_graph (build_location_graph df) \<and>
   nodes (build_location_graph df) = unique (map location (rows df))"
proof -
  let ?G0 = "fold add_node (unique (map location (rows df))) []"
  have "simple_graph ([] :: cell graph)" by (simp add: simple_graph_def nodes_def)
  from fold_add_node_structure[OF this distinct_unique, of "map location (rows df)"]
  have g0: "simple_graph ?G0" "nodes ?G0 = unique (map location (rows df))"
    by (simp_all add: nodes_def)
  then have "set (map location (rows df)) \<subseteq> set (nodes ?G0)" by (simp add: set_unique)
  from fold_connect_disaster_structure[OF g0(1) this] g0(2)
  show ?thesis by (simp add: build_location_graph_def Let_def)
qed

subsection \<open>The betweenness routine returns\<close>

lemma visit_dom:
  assumes "visit rt v Dv sv w (Q, D, sigma, P) = (Q', D', sigma', P')" "set Q \<subseteq> dom D"
  shows "set Q' \<subseteq> dom D'"
  using assms by (auto simp: visit_def split: if_splits)

lemma fold_visit_dom:
  "fold (visit rt v Dv sv) ws (Q, D, sigma, P) = (Q', D', sigma', P') \<Longrightarrow> set Q \<subseteq> dom D \<Longrightarrow> set Q' \<subseteq> dom D'"
proof (induction ws arbitrary: Q D sigma P)
  case Nil
  then show ?case by simp
next
  case (Cons w ws)
  obtain Q1 D1 s1 P1 where st: "visit rt v Dv sv w (Q, D, sigma, P) = (Q1, D1, s1, P1)"
    by (cases "visit rt v Dv sv w (Q, D, sigma, P)") auto
  from visit_dom[OF st Cons.prems(2)] have "set Q1 \<subseteq> dom D1" .
  moreover from Cons.prems(1) st have "fold (visit rt v Dv sv) ws (Q1, D1, s1, P1) = (Q', D', sigma', P')" by simp
  ultimately show ?case by (rule Cons.IH[rotated])
qed

lemma bfs_returns: "set Q \<subseteq> dom D \<Longrightarrow> bfs rt G S D sigma P Q \<noteq> None"
proof (induction rt G S D sigma P Q rule: bfs.induct)
  case (1 rt G S D sigma P)
  then show ?case by simp
next
  case (2 rt G S D sigma P v Q)
  from "2.prems" obtain Dv where Dv: "D v = Some Dv" by auto
  obtain Q' D' sigma' P' where f: "fold (visit rt v Dv (sigma v)) (neighbors G v) (Q, D, sigma, P) = (Q', D', sigma', P')"
    by (cases "fold (visit rt v Dv (sigma v)) (neighbors G v) (Q, D, sigma, P)") auto
  from "2.prems" have "set Q \<subseteq> dom D" by simp
  from fold_visit_dom[OF f this] have "set Q' \<subseteq> dom D'" .
  from "2.IH"[OF Dv f[symmetric] refl refl this] show ?case using Dv f by simp
qed

lemma single_source_returns: "single_source_shortest_path_basic rt G s \<noteq> None"
  unfolding single_source_shortest_path_basic_def by (rule bfs_returns) simp

lemma accumulate_sources_returns: "accumulate_sources rt ne G ss b \<noteq> None"
proof (induction ss arbitrary: b)
  case Nil
  then show ?case by simp
next
  case (Cons s ss)
  from single_source_returns[of rt G s] obtain S P sigma where
    "single_source_shortest_path_basic rt G s = Some (S, P, sigma)" by (cases "single_source_shortest_path_basic rt G s") auto
  with Cons.IH show ?case by simp
qed

lemma betweenness_centrality_returns:
  "\<exists>b. betweenness_centrality rt ne G = Some b \<and> map fst b = nodes G"
proof -
  from accumulate_sources_returns[of rt ne G "nodes G" "\<lambda>_. fzero rt"] obtain acc where
    "accumulate_sources rt ne G (nodes G) (\<lambda>_. fzero rt) = Some acc" by auto
  then show ?thesis by (simp add: betweenness_centrality_def comp_def)
qed

subsection \<open>The edges in iteration order\<close>

lemma edges_from_mem:
  "distinct (map fst G) \<Longrightarrow>
   (u, v, dd) \<in> set (edges_from seen G) \<longleftrightarrow>
     (\<exists>nbrs. map_of G u = Some nbrs \<and> (v, dd) \<in> set nbrs \<and> v \<notin> set seen \<and>
             v \<notin> set (takeWhile (\<lambda>x. x \<noteq> u) (map fst G)))"
proof (induction G arbitrary: seen)
  case Nil
  then show ?case by simp
next
  case (Cons p G)
  obtain n nbrs where p: "p = (n, nbrs)" by (cases p)
  from Cons.prems p have d: "distinct (map fst G)" and n: "n \<notin> fst ` set G" by auto
  show ?case
  proof (cases "u = n")
    case True
    from n have "map_of G n = None" by (simp add: map_of_eq_None_iff)
    then have "(n, v, dd) \<notin> set (edges_from (n # seen) G)"
      using Cons.IH[OF d, of "n # seen"] True by simp
    with True p show ?thesis by auto
  next
    case False
    with p Cons.IH[OF d, of "n # seen"] show ?thesis by auto
  qed
qed

lemma edges_mem:
  "distinct (nodes G) \<Longrightarrow>
   (u, v, dd) \<in> set (edges G) \<longleftrightarrow>
     (\<exists>nbrs. map_of G u = Some nbrs \<and> (v, dd) \<in> set nbrs \<and>
             v \<notin> set (takeWhile (\<lambda>x. x \<noteq> u) (nodes G)))"
  unfolding edges_def nodes_def by (simp add: edges_from_mem)

lemma distinct_edges_from:
  "distinct (map fst G) \<Longrightarrow> (\<forall>(n, nbrs) \<in> set G. distinct (map fst nbrs)) \<Longrightarrow>
   distinct (map (\<lambda>(u, v, dd). (u, v)) (edges_from seen G))"
proof (induction G arbitrary: seen)
  case Nil
  then show ?case by simp
next
  case (Cons p G)
  obtain n nbrs where p: "p = (n, nbrs)" by (cases p)
  from Cons.prems p have d: "distinct (map fst G)" and n: "n \<notin> fst ` set G"
    and dn: "distinct (map fst nbrs)" and rest: "\<forall>(n, nbrs) \<in> set G. distinct (map fst nbrs)" by auto
  have 1: "distinct (map (\<lambda>(u, v, dd). (u, v)) (edges_from (n # seen) G))"
    by (rule Cons.IH[OF d rest])
  have "map (\<lambda>(u, v, dd). (u, v)) (map (\<lambda>(nbr, dd). (n, nbr, dd)) (filter (\<lambda>(nbr, dd). nbr \<notin> set seen) nbrs))
      = map (Pair n) (filter (\<lambda>nbr. nbr \<notin> set seen) (map fst nbrs))"
    by (induction nbrs) auto
  moreover have "distinct (map (Pair n) (filter (\<lambda>nbr. nbr \<notin> set seen) (map fst nbrs)))"
    using dn by (simp add: distinct_map inj_on_def)
  moreover have "\<And>a b dd. (a, b, dd) \<in> set (edges_from (n # seen) G) \<Longrightarrow> a \<noteq> n"
    using n by (auto simp: edges_from_mem[OF d] dest!: map_of_SomeD intro: rev_image_eqI)
  ultimately show ?case using 1 p by (auto simp del: map_map)
qed

lemma takeWhile_before:
  "u \<in> set ns \<Longrightarrow> v \<in> set ns \<Longrightarrow> u \<noteq> v \<Longrightarrow>
   v \<in> set (takeWhile (\<lambda>x. x \<noteq> u) ns) \<longleftrightarrow> u \<notin> set (takeWhile (\<lambda>x. x \<noteq> v) ns)"
  by (induction ns) auto

subsection \<open>The stable descending sort\<close>

lemma mset_insort_desc: "mset (insort_desc lt f x ys) = add_mset x (mset ys)"
  by (induction ys) simp_all

lemma mset_sort_desc: "mset (sort_desc lt f xs) = mset xs"
  unfolding sort_desc_def by (induction xs) (simp_all add: mset_insort_desc)

lemma set_insort_desc: "set (insort_desc lt f x ys) = insert x (set ys)"
  using mset_insort_desc[of lt f x ys] by (metis set_mset_add_mset_insert set_mset_mset)

lemma set_sort_desc: "set (sort_desc lt f xs) = set xs"
  using mset_sort_desc[of lt f xs] by (metis set_mset_mset)

lemma length_sort_desc: "length (sort_desc lt f xs) = length xs"
  using mset_sort_desc[of lt f xs] by (metis size_mset)

lemma sort_desc_Cons: "sort_desc lt f (x # xs) = insort_desc lt f x (sort_desc lt f xs)"
  by (simp add: sort_desc_def)

lemma weak_order_on_subset: "weak_order_on lt A \<Longrightarrow> B \<subseteq> A \<Longrightarrow> weak_order_on lt B"
  unfolding weak_order_on_def by (meson subsetD)

lemma weak_order_asym: "weak_order_on lt A \<Longrightarrow> x \<in> A \<Longrightarrow> y \<in> A \<Longrightarrow> lt x y \<Longrightarrow> \<not> lt y x"
  unfolding weak_order_on_def by blast

lemma weak_order_negtrans:
  "weak_order_on lt A \<Longrightarrow> x \<in> A \<Longrightarrow> y \<in> A \<Longrightarrow> z \<in> A \<Longrightarrow> \<not> lt x y \<Longrightarrow> \<not> lt y z \<Longrightarrow> \<not> lt x z"
  unfolding weak_order_on_def by blast

lemma descending_insort_desc:
  assumes "weak_order_on lt (f ` insert x (set ys))"
    and "sorted_wrt (\<lambda>a b. \<not> lt (f a) (f b)) ys"
  shows "sorted_wrt (\<lambda>a b. \<not> lt (f a) (f b)) (insort_desc lt f x ys)"
  using assms
proof (induction ys)
  case Nil
  then show ?case by simp
next
  case (Cons y ys)
  let ?A = "f ` insert x (set (y # ys))"
  have mem: "f x \<in> ?A" "f y \<in> ?A" "\<And>z. z \<in> set ys \<Longrightarrow> f z \<in> ?A" by auto
  show ?case
  proof (cases "lt (f x) (f y)")
    case True
    have w: "weak_order_on lt (f ` insert x (set ys))"
      by (rule weak_order_on_subset[OF Cons.prems(1)]) auto
    from Cons.prems(2) have s: "sorted_wrt (\<lambda>a b. \<not> lt (f a) (f b)) ys" by simp
    have "\<not> lt (f y) (f x)" using weak_order_asym[OF Cons.prems(1) mem(1,2) True] .
    moreover have "\<forall>z \<in> set ys. \<not> lt (f y) (f z)" using Cons.prems(2) by simp
    ultimately show ?thesis using True Cons.IH[OF w s] by (simp add: set_insort_desc)
  next
    case False
    have "\<not> lt (f x) (f z)" if "z \<in> set ys" for z
    proof -
      from Cons.prems(2) that have "\<not> lt (f y) (f z)" by simp
      from weak_order_negtrans[OF Cons.prems(1) mem(1) mem(2) mem(3)[OF that] False this]
      show ?thesis .
    qed
    with False Cons.prems(2) show ?thesis by simp
  qed
qed

lemma descending_sort_desc:
  "weak_order_on lt (f ` set xs) \<Longrightarrow> sorted_wrt (\<lambda>a b. \<not> lt (f a) (f b)) (sort_desc lt f xs)"
proof (induction xs)
  case Nil
  then show ?case by (simp add: sort_desc_def)
next
  case (Cons x xs)
  have w: "weak_order_on lt (f ` set xs)"
    by (rule weak_order_on_subset[OF Cons.prems]) auto
  have "weak_order_on lt (f ` insert x (set (sort_desc lt f xs)))"
    using Cons.prems by (simp add: set_sort_desc)
  from descending_insort_desc[OF this Cons.IH[OF w]] show ?case by (simp add: sort_desc_Cons)
qed

lemma filter_insort_desc_other:
  "\<not> Q x \<Longrightarrow> filter Q (insort_desc lt f x ys) = filter Q ys"
  by (induction ys) simp_all

lemma filter_insort_desc_same:
  "Q x \<Longrightarrow> \<forall>y \<in> set ys. lt (f x) (f y) \<longrightarrow> \<not> Q y \<Longrightarrow>
   filter Q (insort_desc lt f x ys) = x # filter Q ys"
  by (induction ys) simp_all

lemma sort_desc_stable:
  assumes "weak_order_on lt (insert k (f ` set xs))"
  shows "filter (\<lambda>y. same_rank lt (f y) k) (sort_desc lt f xs) = filter (\<lambda>y. same_rank lt (f y) k) xs"
  using assms
proof (induction xs)
  case Nil
  then show ?case by (simp add: sort_desc_def)
next
  case (Cons x xs)
  let ?A = "insert k (f ` set (x # xs))"
  have w: "weak_order_on lt (insert k (f ` set xs))"
    by (rule weak_order_on_subset[OF Cons.prems]) auto
  note IH = Cons.IH[OF w]
  show ?case
  proof (cases "same_rank lt (f x) k")
    case False
    with filter_insort_desc_other[of "\<lambda>y. same_rank lt (f y) k" x lt f] IH show ?thesis
      by (simp add: sort_desc_Cons)
  next
    case True
    have "\<not> same_rank lt (f y) k" if "y \<in> set (sort_desc lt f xs)" "lt (f x) (f y)" for y
    proof
      assume s: "same_rank lt (f y) k"
      from that(1) have y: "f y \<in> ?A" by (simp add: set_sort_desc)
      have "\<not> lt (f x) k" "\<not> lt k (f y)" using True s by (simp_all add: same_rank_def)
      from weak_order_negtrans[OF Cons.prems _ _ y this] that(2) show False by simp
    qed
    then have "filter (\<lambda>y. same_rank lt (f y) k) (insort_desc lt f x (sort_desc lt f xs))
               = x # filter (\<lambda>y. same_rank lt (f y) k) (sort_desc lt f xs)"
      using True by (intro filter_insort_desc_same) auto
    with True IH show ?thesis by (simp add: sort_desc_Cons)
  qed
qed

lemma length_filter_sort_desc: "length (filter Q (sort_desc lt f xs)) = length (filter Q xs)"
proof -
  have "mset (filter Q (sort_desc lt f xs)) = mset (filter Q xs)"
    by (simp add: mset_sort_desc)
  then show ?thesis by (metis size_mset)
qed


subsection \<open>The exact runtime orders its numbers\<close>

lemma exact_simps:
  "fzero exact = Num 0" "fone exact = Num 1" "fhalf exact = Num (1 / 2)"
  "ftenth exact = Num (1 / 10)" "fof_nat exact n = Num (of_nat n)"
  "fadd exact = xlift (+)" "fsub exact = xlift (-)" "fmul exact = xlift (*)"
  "fdiv exact = xdiv" "fless exact = xless" "series_mean exact = xseries_mean"
  "np_mean exact = xnp_mean" "list_of_set exact = sorted_list_of_set"
  by (simp_all add: exact_def)

lemma weak_order_xless: "NaN \<notin> A \<Longrightarrow> weak_order_on xless A"
  unfolding weak_order_on_def
proof (intro conjI ballI impI)
  fix x y assume "NaN \<notin> A" "x \<in> A" "y \<in> A" "xless x y"
  then show "\<not> xless y x" by (cases x; cases y) auto
next
  fix x y z assume "NaN \<notin> A" "x \<in> A" "y \<in> A" "z \<in> A" "xless x y" "xless y z"
  then show "xless x z" by (cases x; cases y; cases z) auto
next
  fix x y z assume "NaN \<notin> A" "x \<in> A" "y \<in> A" "z \<in> A" "\<not> xless x y" "\<not> xless y z"
  then show "\<not> xless x z" by (cases x; cases y; cases z) auto
qed

lemma exact_orders_above: "weak_order_on (fless exact) {x. fless exact c x}"
  unfolding exact_simps by (rule weak_order_xless) simp

lemma exact_fadd_commute: "fadd exact x y = fadd exact y x"
  unfolding exact_simps by (cases x; cases y) (simp_all add: add.commute)

lemma exact_listing: "finite S \<Longrightarrow> set (list_of_set exact S) = S \<and> distinct (list_of_set exact S)"
  unfolding exact_simps by simp

subsection \<open>The analysis returns\<close>

lemma spread_entries_Inr:
  "(\<forall>(u, v, d) \<in> set es. u \<in> fst ` set b \<and> v \<in> fst ` set b) \<Longrightarrow>
   spread_entries rt b es =
     Inr (map (path_entry rt b)
            (filter (\<lambda>(u, v, d). fless rt (ftenth rt) (edge_sum rt b u v)) es))"
proof (induction es)
  case Nil
  then show ?case by simp
next
  case (Cons e es)
  obtain u v d where e: "e = (u, v, d)" by (cases e)
  from Cons.prems e have "u \<in> fst ` set b" "v \<in> fst ` set b" by auto
  then have "map_of b u \<noteq> None" "map_of b v \<noteq> None" by (simp_all add: map_of_eq_None_iff)
  then obtain bu bv where bu: "map_of b u = Some bu" and bv: "map_of b v = Some bv" by auto
  from Cons have IH: "spread_entries rt b es =
     Inr (map (path_entry rt b)
            (filter (\<lambda>(u, v, d). fless rt (ftenth rt) (edge_sum rt b u v)) es))" by simp
  show ?case
    by (simp add: e bu bv IH path_entry_def edge_sum_def get_or_def Let_def)
qed

lemma edges_endpoints:
  assumes "simple_graph G" "(u, v, dd) \<in> set (edges G)"
  shows "u \<in> set (nodes G) \<and> v \<in> set (nodes G) \<and> get_edge_data G u v = Some dd"
proof -
  from assms(2) edges_mem[OF simple_graph_distinct[OF assms(1)]]
  obtain nbrs where n: "map_of G u = Some nbrs" "(v, dd) \<in> set nbrs" by blast
  from n(1) have "u \<in> set (nodes G)" by (auto simp: nodes_def dest!: map_of_SomeD intro: rev_image_eqI)
  moreover from simple_graph_nbrs[OF assms(1) n(1)] n(2)
  have "v \<in> set (nodes G)" "map_of nbrs v = Some dd" by auto
  ultimately show ?thesis using n(1) by (simp add: get_edge_data_def)
qed

lemma analyze_build:
  assumes "simple_graph G"
  shows "\<exists>b. betweenness_centrality rt cell_ne G = Some b \<and> map fst b = nodes G \<and>
    analyze_disaster_spread rt G df communities =
      Inr \<lparr>high_risk_locations =
             sort_desc (fless rt) risk_score
               (risk_entries rt (loc_alert_levels rt df) (degree_centrality rt G)),
           disaster_clusters =
             sort_desc (pair_less rt) (\<lambda>x. (cluster_size x, avg_alert_level x))
               (clusters_from rt (loc_alert_levels rt df) 0 communities),
           potential_spread_paths =
             sort_desc (fless rt) path_betweenness
               (map (path_entry rt b)
                  (filter (\<lambda>(u, v, d). fless rt (ftenth rt) (edge_sum rt b u v)) (edges G)))\<rparr>"
proof -
  from betweenness_centrality_returns[of rt cell_ne G] obtain b where
    b: "betweenness_centrality rt cell_ne G = Some b" "map fst b = nodes G" by blast
  have "\<forall>(u, v, d) \<in> set (edges G). u \<in> fst ` set b \<and> v \<in> fst ` set b"
    using edges_endpoints[OF assms] b(2) by (metis (mono_tags, lifting) case_prodI2 set_map)
  from spread_entries_Inr[OF this, of rt] b show ?thesis
    by (simp add: analyze_disaster_spread_def Let_def)
qed

lemma generate_report:
  assumes "\<not> empty_df df" "filter (\<lambda>col. col \<notin> set (columns df)) required_columns = []"
  shows "\<exists>b res. betweenness_centrality rt cell_ne (build_location_graph df) = Some b \<and>
           map fst b = nodes (build_location_graph df) \<and>
    analyze_disaster_spread rt (build_location_graph df) df communities = Inr res \<and>
    high_risk_locations res =
      sort_desc (fless rt) risk_score
        (risk_entries rt (loc_alert_levels rt df) (degree_centrality rt (build_location_graph df))) \<and>
    disaster_clusters res =
      sort_desc (pair_less rt) (\<lambda>x. (cluster_size x, avg_alert_level x))
        (clusters_from rt (loc_alert_levels rt df) 0 communities) \<and>
    potential_spread_paths res =
      sort_desc (fless rt) path_betweenness
        (map (path_entry rt b)
           (filter (\<lambda>(u, v, d). fless rt (ftenth rt) (edge_sum rt b u v))
              (edges (build_location_graph df)))) \<and>
    generate_link_analysis_report rt df communities =
      Report
        \<lparr>locations_analyzed = length (unique (map location (rows df))),
         disaster_types_analyzed = unique (map disaster_type (rows df)),
         report_high_risk_locations = take 5 (high_risk_locations res),
         report_disaster_clusters = disaster_clusters res,
         report_potential_spread_paths = take 10 (potential_spread_paths res),
         visualization_path = ''disaster_network.png''\<rparr>"
proof -
  let ?G = "build_location_graph df"
  from build_structure[of df] have "simple_graph ?G" by simp
  from analyze_build[OF this, of rt df communities] obtain b where
    b: "betweenness_centrality rt cell_ne ?G = Some b" "map fst b = nodes ?G"
    and a: "analyze_disaster_spread rt ?G df communities =
      Inr \<lparr>high_risk_locations =
             sort_desc (fless rt) risk_score
               (risk_entries rt (loc_alert_levels rt df) (degree_centrality rt ?G)),
           disaster_clusters =
             sort_desc (pair_less rt) (\<lambda>x. (cluster_size x, avg_alert_level x))
               (clusters_from rt (loc_alert_levels rt df) 0 communities),
           potential_spread_paths =
             sort_desc (fless rt) path_betweenness
               (map (path_entry rt b)
                  (filter (\<lambda>(u, v, d). fless rt (ftenth rt) (edge_sum rt b u v)) (edges ?G)))\<rparr>"
    by blast
  show ?thesis
    apply (rule exI[of _ b])
    apply (rule exI)
    apply (intro conjI)
          apply (rule b(1))
         apply (rule b(2))
        apply (rule a)
       apply simp
      apply simp
     apply simp
    using assms by (simp add: generate_link_analysis_report_def Let_def a)
qed

lemma length_unique: "length (unique xs) = card (set xs)"
  by (metis distinct_card distinct_unique set_unique)


subsection \<open>No data\<close>

text \<open>
  C3, as the code has it. On an empty data frame \<^verbatim>\<open>generate_link_analysis_report\<close> returns
  the message "No disaster data available for analysis." in place of a report; it raises
  nothing and builds no report with zero counts.
\<close>

theorem empty_data_message:
  "empty_df df \<Longrightarrow>
   generate_link_analysis_report rt df communities
     = Message ''No disaster data available for analysis.''"
  by (simp add: generate_link_analysis_report_def)

theorem empty_data_message_witness:
  "empty_df no_data \<and>
   generate_link_analysis_report exact no_data []
     = Message ''No disaster data available for analysis.''"
proof -
  have e: "empty_df no_data" by (simp add: empty_df_def no_data_def)
  from e empty_data_message[OF e] show ?thesis by (rule conjI)
qed

text \<open>On the frame without rows and columns the result is not a report.\<close>

theorem empty_data_no_report: "\<not> is_Report (generate_link_analysis_report exact no_data [])"
  by (simp add: generate_link_analysis_report_def empty_df_def no_data_def)

subsection \<open>Missing fields\<close>

text \<open>
  C9, as the code has it. The required fields are checked as columns of the frame, not
  record by record. When a required column is absent, the run ends with the message
  "Missing required columns: [...]" that names the absent columns, and nothing is analysed.
  When the three columns are there, no record is skipped and no count of skipped records
  is kept: the location of every row is a node of the graph and is counted, and the
  disaster type of every row is listed, also for a row that lacks a location, a disaster
  type or an alert level.
\<close>

theorem missing_column_message:
  assumes "\<not> empty_df df"
  shows "(filter (\<lambda>col. col \<notin> set (columns df)) required_columns \<noteq> [] \<longrightarrow>
            generate_link_analysis_report rt df communities =
              Message (''Missing required columns: ''
                         @ str_of_list (filter (\<lambda>col. col \<notin> set (columns df)) required_columns))) \<and>
         (filter (\<lambda>col. col \<notin> set (columns df)) required_columns = [] \<longrightarrow>
            (\<exists>r. generate_link_analysis_report rt df communities = Report r \<and>
                 set (nodes (build_location_graph df)) = location ` set (rows df) \<and>
                 locations_analyzed r = card (location ` set (rows df)) \<and>
                 set (disaster_types_analyzed r) = disaster_type ` set (rows df)))"
proof (intro conjI impI)
  assume "filter (\<lambda>col. col \<notin> set (columns df)) required_columns \<noteq> []"
  with assms show "generate_link_analysis_report rt df communities =
              Message (''Missing required columns: ''
                         @ str_of_list (filter (\<lambda>col. col \<notin> set (columns df)) required_columns))"
    by (simp add: generate_link_analysis_report_def Let_def)
next
  assume "filter (\<lambda>col. col \<notin> set (columns df)) required_columns = []"
  from generate_report[OF assms this, of rt communities] build_structure[of df]
  show "\<exists>r. generate_link_analysis_report rt df communities = Report r \<and>
                 set (nodes (build_location_graph df)) = location ` set (rows df) \<and>
                 locations_analyzed r = card (location ` set (rows df)) \<and>
                 set (disaster_types_analyzed r) = disaster_type ` set (rows df)"
    by (auto simp: length_unique set_unique)
qed

theorem missing_column_message_witness:
  "\<not> empty_df (example_df\<lparr>columns := [''location'']\<rparr>) \<and>
   generate_link_analysis_report exact (example_df\<lparr>columns := [''location'']\<rparr>) []
     = Message (''Missing required columns: ['' @ [CHR 0x27] @ ''disaster_type'' @ [CHR 0x27] @ '', ''
                  @ [CHR 0x27] @ ''alert_level'' @ [CHR 0x27] @ '']'')"
proof -
  have e: "\<not> empty_df (example_df\<lparr>columns := [''location'']\<rparr>)"
    by (simp add: empty_df_def example_df_def)
  have f: "filter (\<lambda>col. col \<notin> set (columns (example_df\<lparr>columns := [''location'']\<rparr>))) required_columns
            = [''disaster_type'', ''alert_level'']"
    by (simp add: required_columns_def)
  from missing_column_message[OF e, of exact "[]"] f
  have "generate_link_analysis_report exact (example_df\<lparr>columns := [''location'']\<rparr>) []
     = Message (''Missing required columns: '' @ str_of_list [''disaster_type'', ''alert_level''])"
    by simp
  then show ?thesis using e by (simp add: str_of_list_def)
qed

text \<open>
  A record without a disaster type (at C) and a record without an alert level (at D) are
  analysed with the others: C and D are the third and fourth location of the report and
  nodes of the graph, D is joined to A and B and lowers their centrality to 2/3, the
  missing type is listed, and the report has no count of skipped records.
\<close>

theorem malformed_record_not_skipped:
  "nodes (build_location_graph partial_df) = [Some ''A'', Some ''B'', Some ''C'', Some ''D''] \<and>
   generate_link_analysis_report exact partial_df [[Some ''A'', Some ''B''], [Some ''C'']] =
     Report
       \<lparr>locations_analyzed = 4, disaster_types_analyzed = [Some ''flood'', None],
        report_high_risk_locations =
          [\<lparr>risk_location = Some ''B'', risk_centrality = Num (2 / 3), risk_alert_level = Num 4,
             risk_score = Num (8 / 3)\<rparr>,
           \<lparr>risk_location = Some ''A'', risk_centrality = Num (2 / 3), risk_alert_level = Num 3,
             risk_score = Num 2\<rparr>],
        report_disaster_clusters =
          [\<lparr>cluster_id = 0, cluster_locations = [Some ''A'', Some ''B''], cluster_size = 2,
             avg_alert_level = Num (7 / 2)\<rparr>],
        report_potential_spread_paths = [],
        visualization_path = ''disaster_network.png''\<rparr>"
  by code_simp

subsection \<open>Degree centrality\<close>

lemma neighbors_simple:
  assumes "simple_graph G"
  shows "distinct (neighbors G v)" and "v \<notin> set (neighbors G v)"
    and "set (neighbors G v) \<subseteq> set (nodes G)"
proof -
  show "distinct (neighbors G v)"
    using simple_graph_nbrs(1)[OF assms] by (cases "map_of G v") (simp_all add: neighbors_def)
  show "v \<notin> set (neighbors G v)"
    using simple_graph_nbrs(2)[OF assms] by (cases "map_of G v") (fastforce simp: neighbors_def)+
  show "set (neighbors G v) \<subseteq> set (nodes G)"
    using simple_graph_nbrs(2)[OF assms] by (cases "map_of G v") (fastforce simp: neighbors_def)+
qed

lemma degree_simple:
  assumes "simple_graph G" "v \<in> set (nodes G)"
  shows "degree G v = length (neighbors G v)" and "degree G v < length G"
proof -
  note n = neighbors_simple[OF assms(1), of v]
  show d: "degree G v = length (neighbors G v)" using n(2) by (simp add: degree_def)
  have "set (neighbors G v) \<subseteq> set (nodes G) - {v}" using n(2,3) by auto
  then have "card (set (neighbors G v)) \<le> card (set (nodes G) - {v})"
    by (intro card_mono) auto
  also have "\<dots> < card (set (nodes G))" using assms(2) by (intro card_Diff1_less) auto
  also have "\<dots> = length G"
    using simple_graph_distinct[OF assms(1)] by (metis distinct_card length_map nodes_def)
  finally show "degree G v < length G" using n(1) d by (simp add: distinct_card)
qed

lemma length_nodes: "length (nodes G) = length G"
  by (simp add: nodes_def)

lemma map_of_table: "v \<in> set ns \<Longrightarrow> map_of (map (\<lambda>n. (n, f n)) ns) v = Some (f v)"
  by (induction ns) auto

lemma degree_centrality_exact:
  assumes "1 < length G"
  shows "degree_centrality exact G =
           map (\<lambda>n. (n, Num (of_nat (degree G n) / (of_nat (length G) - 1)))) (nodes G)"
proof -
  from assms have "rat_of_nat (length G) - 1 \<noteq> 0" by simp
  then have "xdiv (Num 1) (xlift (-) (Num (rat_of_nat (length G))) (Num 1))
             = Num (1 / (rat_of_nat (length G) - 1))" by simp
  with assms show ?thesis by (simp add: degree_centrality_def exact_simps Let_def)
qed

text \<open>
  C4, as the library has it, in exact arithmetic. In a graph without self-loops, the degree
  centrality of a node is its degree divided by the number of the other nodes when there
  are other nodes, and 1 when the node is the only one; it lies between 0 and 1, and it is
  0 exactly for an isolated node of a graph of more than one node.
\<close>

theorem degree_centrality_normalized:
  assumes "simple_graph G" "v \<in> set (nodes G)"
  shows "\<exists>c. map_of (degree_centrality exact G) v = Some (Num c) \<and>
             c = (if length (nodes G) \<le> 1 then 1
                  else of_nat (degree G v) / (of_nat (length (nodes G)) - 1)) \<and>
             0 \<le> c \<and> c \<le> 1 \<and> (c = 0 \<longleftrightarrow> 1 < length (nodes G) \<and> neighbors G v = [])"
proof (cases "length G \<le> 1")
  case True
  then show ?thesis
    using assms(2) by (simp add: degree_centrality_def map_of_table length_nodes exact_simps)
next
  case False
  let ?n = "rat_of_nat (length G)"
  let ?c = "rat_of_nat (degree G v) / (?n - 1)"
  from False have n: "?n - 1 > 0" by simp
  from False have "1 < length G" by simp
  from degree_centrality_exact[OF this]
  have m: "map_of (degree_centrality exact G) v = Some (Num ?c)"
    using assms(2) by (simp add: map_of_table)
  have "Suc (degree G v) \<le> length G" using degree_simple(2)[OF assms] by simp
  then have "rat_of_nat (Suc (degree G v)) \<le> ?n" by (simp only: of_nat_le_iff)
  then have "rat_of_nat (degree G v) \<le> ?n - 1" by simp
  then have "?c \<le> 1" using n by (simp add: divide_le_eq)
  moreover have "0 \<le> ?c" using n by simp
  moreover have "?c = 0 \<longleftrightarrow> neighbors G v = []"
    using n degree_simple(1)[OF assms] by simp
  ultimately show ?thesis using m False by (simp add: length_nodes)
qed

theorem degree_centrality_normalized_witness:
  "simple_graph (build_location_graph partial_df) \<and>
   Some ''C'' \<in> set (nodes (build_location_graph partial_df)) \<and>
   (\<exists>c. map_of (degree_centrality exact (build_location_graph partial_df)) (Some ''C'') = Some (Num c) \<and>
        c = (if length (nodes (build_location_graph partial_df)) \<le> 1 then 1
             else of_nat (degree (build_location_graph partial_df) (Some ''C''))
                    / (of_nat (length (nodes (build_location_graph partial_df))) - 1)) \<and>
        0 \<le> c \<and> c \<le> 1 \<and>
        (c = 0 \<longleftrightarrow> 1 < length (nodes (build_location_graph partial_df)) \<and>
                  neighbors (build_location_graph partial_df) (Some ''C'') = []))"
proof -
  have s: "simple_graph (build_location_graph partial_df)" by code_simp
  have v: "Some ''C'' \<in> set (nodes (build_location_graph partial_df))" by code_simp
  from s v degree_centrality_normalized[OF s v] show ?thesis by (intro conjI)
qed

text \<open>The only location of the data is an isolated node of centrality 1, not 0.\<close>

theorem single_node_centrality_is_one:
  "nodes (build_location_graph lone_df) = [Some ''A''] \<and>
   neighbors (build_location_graph lone_df) (Some ''A'') = [] \<and>
   degree_centrality exact (build_location_graph lone_df) = [(Some ''A'', Num 1)]"
  by code_simp

subsection \<open>The mean alert levels\<close>

lemma loc_alert_levels_None:
  "loc_alert_levels rt df loc = None \<longleftrightarrow> (loc = None \<or> loc \<notin> location ` set (rows df))"
proof -
  have "filter (\<lambda>r. cell_eq (location r) loc) (rows df) = [] \<longleftrightarrow>
        (loc = None \<or> loc \<notin> location ` set (rows df))"
    unfolding filter_empty_conv cell_eq_def by force
  then show ?thesis by (simp add: loc_alert_levels_def Let_def)
qed

lemma dom_loc_alert_levels:
  "dom (loc_alert_levels rt df) = {loc \<in> location ` set (rows df). loc \<noteq> None}"
  unfolding dom_def loc_alert_levels_None by blast

text \<open>
  C10, for data in which every row has a location. The nodes of the graph are then the
  keys of the mean alert levels: the test \<^verbatim>\<open>loc in loc_alert_levels\<close> holds for every node, and
  the default of \<^verbatim>\<open>loc_alert_levels.get(loc, 0)\<close> is not used for a node, whatever it is.
\<close>

theorem nodes_have_alert_levels:
  assumes "None \<notin> set (map location (rows df))"
  shows "set (nodes (build_location_graph df)) = dom (loc_alert_levels rt df) \<and>
         (\<forall>loc d. loc \<in> set (nodes (build_location_graph df)) \<longrightarrow>
            get_or (loc_alert_levels rt df) loc d = get_or (loc_alert_levels rt df) loc (fzero rt))"
proof -
  have n: "set (nodes (build_location_graph df)) = location ` set (rows df)"
    using build_structure[of df] by (simp add: set_unique)
  have "location ` set (rows df) = {loc \<in> location ` set (rows df). loc \<noteq> None}"
    using assms by force
  with n have eq: "set (nodes (build_location_graph df)) = dom (loc_alert_levels rt df)"
    by (simp only: dom_loc_alert_levels)
  have "get_or (loc_alert_levels rt df) loc d = get_or (loc_alert_levels rt df) loc (fzero rt)"
    if "loc \<in> dom (loc_alert_levels rt df)" for loc d
    using that by (auto simp: get_or_def)
  with eq show ?thesis by blast
qed

theorem nodes_have_alert_levels_witness:
  "None \<notin> set (map location (rows example_df)) \<and>
   set (nodes (build_location_graph example_df)) = dom (loc_alert_levels exact example_df) \<and>
   get_or (loc_alert_levels exact example_df) (Some ''A'') (Num 7)
     = get_or (loc_alert_levels exact example_df) (Some ''A'') (fzero exact)"
proof -
  have h: "None \<notin> set (map location (rows example_df))"
    by (simp add: example_df_def incident_at_def)
  have a: "Some ''A'' \<in> set (nodes (build_location_graph example_df))" by code_simp
  note t = nodes_have_alert_levels[OF h, of exact]
  from t a have "get_or (loc_alert_levels exact example_df) (Some ''A'') (Num 7)
                   = get_or (loc_alert_levels exact example_df) (Some ''A'') (fzero exact)" by blast
  with h t show ?thesis by blast
qed

text \<open>
  A row without a location makes NaN a node with an edge and no mean alert level: the
  membership test keeps it out of the risk entries, and the default is what
  \<^verbatim>\<open>get\<close> returns for it.
\<close>

theorem nan_location_has_no_alert_level:
  "None \<in> set (nodes (build_location_graph nan_df)) \<and> loc_alert_levels exact nan_df None = None \<and>
   degree_centrality exact (build_location_graph nan_df) = [(Some ''A'', Num 1), (None, Num 1)] \<and>
   risk_entries exact (loc_alert_levels exact nan_df)
       (degree_centrality exact (build_location_graph nan_df))
     = [\<lparr>risk_location = Some ''A'', risk_centrality = Num 1, risk_alert_level = Num 3,
          risk_score = Num 3\<rparr>] \<and>
   get_or (loc_alert_levels exact nan_df) None (Num 0) = Num 0 \<and>
   get_or (loc_alert_levels exact nan_df) None (Num 1) = Num 1"
proof (intro conjI)
  show "None \<in> set (nodes (build_location_graph nan_df))" by code_simp
  show "loc_alert_levels exact nan_df None = None" by code_simp
  show "degree_centrality exact (build_location_graph nan_df) = [(Some ''A'', Num 1), (None, Num 1)]"
    by code_simp
  show "risk_entries exact (loc_alert_levels exact nan_df)
       (degree_centrality exact (build_location_graph nan_df))
     = [\<lparr>risk_location = Some ''A'', risk_centrality = Num 1, risk_alert_level = Num 3,
          risk_score = Num 3\<rparr>]"
    by code_simp
  show "get_or (loc_alert_levels exact nan_df) None (Num 0) = Num 0" by code_simp
  show "get_or (loc_alert_levels exact nan_df) None (Num 1) = Num 1" by code_simp
qed

subsection \<open>High-risk locations\<close>

lemma risk_entries_mem:
  "e \<in> set (risk_entries rt alerts cs) \<longleftrightarrow>
     (risk_location e, risk_centrality e) \<in> set cs \<and>
     alerts (risk_location e) = Some (risk_alert_level e) \<and>
     risk_score e = fmul rt (risk_centrality e) (risk_alert_level e) \<and>
     fless rt (fhalf rt) (risk_score e)"
proof (induction cs)
  case Nil
  then show ?case by simp
next
  case (Cons c cs)
  obtain loc cent where c: "c = (loc, cent)" by (cases c)
  show ?case
  proof (cases "alerts loc")
    case None
    with Cons c show ?thesis by auto
  next
    case (Some alert)
    show ?thesis
    proof (cases "fless rt (fhalf rt) (fmul rt cent alert)")
      case True
      with Cons c Some show ?thesis by (cases e) (auto simp: Let_def)
    next
      case False
      with Cons c Some show ?thesis by (auto simp: Let_def)
    qed
  qed
qed

lemma risk_entries_order:
  "map risk_location (filter (\<lambda>e. same_rank (fless rt) (risk_score e) k) (risk_entries rt alerts cs)) =
   map fst (filter (ranks_with rt alerts k) cs)"
proof (induction cs)
  case Nil
  then show ?case by simp
next
  case (Cons c cs)
  obtain loc cent where c: "c = (loc, cent)" by (cases c)
  show ?case
  proof (cases "alerts loc")
    case None
    with Cons c show ?thesis by (simp add: risk_of_def ranks_with_def)
  next
    case (Some alert)
    with Cons c show ?thesis by (auto simp: risk_of_def ranks_with_def Let_def)
  qed
qed

lemma analyze_high_risk:
  assumes "analyze_disaster_spread rt G df communities = Inr res"
  shows "high_risk_locations res =
           sort_desc (fless rt) risk_score
             (risk_entries rt (loc_alert_levels rt df) (degree_centrality rt G))"
  using assms
  by (auto simp: analyze_disaster_spread_def Let_def split: option.splits sum.splits)

lemma risk_scores_above:
  "risk_score ` set (risk_entries rt alerts cs) \<subseteq> {x. fless rt (fhalf rt) x}"
  using risk_entries_mem[of _ rt alerts cs] by blast

lemma scenario_analysis:
  "analyze_disaster_spread exact (build_location_graph scenario_df) scenario_df
     [[Some ''A'', Some ''B'', Some ''C'']] = Inr scenario_results"
  by code_simp

lemma scenario_betweenness:
  "betweenness_centrality exact cell_ne (build_location_graph scenario_df)
     = Some [(Some ''A'', Num 1), (Some ''B'', Num 0), (Some ''C'', Num 0)]"
  by code_simp

text \<open>
  C5, for every float arithmetic in which \<^verbatim>\<open><\<close> orders the numbers above 0.5, as that of
  the interpreter does. The high-risk locations of the analysis descend by risk score; an
  entry is in the result exactly when its location and centrality are an entry of the
  degree centrality table, its alert level is the mean alert level of the location, its
  score is their product, and the score exceeds 0.5; and the entries that tie with a score
  stand in the order in which the centrality table lists their locations, each once.
\<close>

theorem high_risk_locations_ranked:
  assumes "weak_order_on (fless rt) {x. fless rt (fhalf rt) x}"
    and "analyze_disaster_spread rt G df communities = Inr res"
  shows "sorted_wrt (\<lambda>a b. \<not> fless rt (risk_score a) (risk_score b)) (high_risk_locations res) \<and>
         (\<forall>e. e \<in> set (high_risk_locations res) \<longleftrightarrow>
            (risk_location e, risk_centrality e) \<in> set (degree_centrality rt G) \<and>
            loc_alert_levels rt df (risk_location e) = Some (risk_alert_level e) \<and>
            risk_score e = fmul rt (risk_centrality e) (risk_alert_level e) \<and>
            fless rt (fhalf rt) (risk_score e)) \<and>
         (\<forall>k. fless rt (fhalf rt) k \<longrightarrow>
            map risk_location
              (filter (\<lambda>e. same_rank (fless rt) (risk_score e) k) (high_risk_locations res)) =
            map fst (filter (ranks_with rt (loc_alert_levels rt df) k) (degree_centrality rt G)))"
proof -
  let ?es = "risk_entries rt (loc_alert_levels rt df) (degree_centrality rt G)"
  note above = risk_scores_above[of rt "loc_alert_levels rt df" "degree_centrality rt G"]
  have 1: "sorted_wrt (\<lambda>a b. \<not> fless rt (risk_score a) (risk_score b))
             (sort_desc (fless rt) risk_score ?es)"
    by (rule descending_sort_desc[OF weak_order_on_subset[OF assms(1) above]])
  have 3: "map risk_location
              (filter (\<lambda>e. same_rank (fless rt) (risk_score e) k)
                 (sort_desc (fless rt) risk_score ?es)) =
            map fst (filter (ranks_with rt (loc_alert_levels rt df) k) (degree_centrality rt G))"
    if "fless rt (fhalf rt) k" for k
  proof -
    have "insert k (risk_score ` set ?es) \<subseteq> {x. fless rt (fhalf rt) x}"
      using above that by simp
    from sort_desc_stable[OF weak_order_on_subset[OF assms(1) this]] show ?thesis
      by (simp add: risk_entries_order)
  qed
  show ?thesis
    unfolding analyze_high_risk[OF assms(2)]
    using 1 3 by (simp add: set_sort_desc risk_entries_mem)
qed

theorem high_risk_locations_ranked_witness:
  "analyze_disaster_spread exact (build_location_graph scenario_df) scenario_df
     [[Some ''A'', Some ''B'', Some ''C'']] = Inr scenario_results \<and>
   sorted_wrt (\<lambda>a b. \<not> fless exact (risk_score a) (risk_score b))
     (high_risk_locations scenario_results) \<and>
   map risk_location
     (filter (\<lambda>e. same_rank (fless exact) (risk_score e) (Num (5 / 2)))
        (high_risk_locations scenario_results))
     = [Some ''A'', Some ''C'']"
proof -
  note t = high_risk_locations_ranked[OF exact_orders_above scenario_analysis]
  from t have 1: "sorted_wrt (\<lambda>a b. \<not> fless exact (risk_score a) (risk_score b))
     (high_risk_locations scenario_results)"
    by blast
  have k: "fless exact (fhalf exact) (Num (5 / 2))" by (simp add: exact_simps)
  from t k have "map risk_location
     (filter (\<lambda>e. same_rank (fless exact) (risk_score e) (Num (5 / 2)))
        (high_risk_locations scenario_results)) =
     map fst (filter (ranks_with exact (loc_alert_levels exact scenario_df) (Num (5 / 2)))
                (degree_centrality exact (build_location_graph scenario_df)))"
    by blast
  also have "\<dots> = [Some ''A'', Some ''C'']" by code_simp
  finally show ?thesis using 1 scenario_analysis by blast
qed

subsection \<open>Spread paths\<close>

lemma build_symmetric:
  "get_edge_data (build_location_graph df) u v = get_edge_data (build_location_graph df) v u"
proof -
  let ?E = "shared df (set (map disaster_type (rows df)))"
  from represents_build[of df] have s: "?E u v = ?E v u"
    and g: "\<And>a b. get_edge_data (build_location_graph df) a b =
        (if ?E a b = {} then None else Some \<lparr>weight = int (card (?E a b)), disasters = ?E a b\<rparr>)"
    unfolding represents_def by blast+
  show ?thesis unfolding g s ..
qed

lemma build_edge_finite:
  assumes "get_edge_data (build_location_graph df) u v = Some dd"
  shows "finite (disasters dd)"
proof -
  let ?E = "shared df (set (map disaster_type (rows df)))"
  from represents_build[of df] have f: "finite (?E u v)"
    and g: "get_edge_data (build_location_graph df) u v =
        (if ?E u v = {} then None else Some \<lparr>weight = int (card (?E u v)), disasters = ?E u v\<rparr>)"
    unfolding represents_def by blast+
  from assms g have "dd = \<lparr>weight = int (card (?E u v)), disasters = ?E u v\<rparr>"
    by (simp split: if_splits)
  with f show ?thesis by simp
qed

lemma get_edge_data_simple:
  assumes "simple_graph G" "get_edge_data G u v = Some dd"
  shows "u \<noteq> v" and "u \<in> set (nodes G)" and "v \<in> set (nodes G)"
    and "\<exists>nbrs. map_of G u = Some nbrs \<and> (v, dd) \<in> set nbrs"
proof -
  from assms(2) obtain nbrs where n: "map_of G u = Some nbrs" "map_of nbrs v = Some dd"
    by (auto simp: get_edge_data_def split: option.splits)
  from n(2) have m: "(v, dd) \<in> set nbrs" by (rule map_of_SomeD)
  from simple_graph_nbrs(2)[OF assms(1) n(1) m] show "u \<noteq> v" "v \<in> set (nodes G)" by auto
  from n(1) show "u \<in> set (nodes G)"
    by (auto simp: nodes_def dest!: map_of_SomeD intro: rev_image_eqI)
  from n(1) m show "\<exists>nbrs. map_of G u = Some nbrs \<and> (v, dd) \<in> set nbrs" by blast
qed

lemma edges_key_mem:
  assumes "simple_graph G" "get_edge_data G u v = Some dd"
  shows "(u, v) \<in> set (map (\<lambda>(a, b, d). (a, b)) (edges G)) \<longleftrightarrow>
         v \<notin> set (takeWhile (\<lambda>x. x \<noteq> u) (nodes G))"
proof
  assume "(u, v) \<in> set (map (\<lambda>(a, b, d). (a, b)) (edges G))"
  then obtain d where "(u, v, d) \<in> set (edges G)" by auto
  then show "v \<notin> set (takeWhile (\<lambda>x. x \<noteq> u) (nodes G))"
    using edges_mem[OF simple_graph_distinct[OF assms(1)]] by blast
next
  assume "v \<notin> set (takeWhile (\<lambda>x. x \<noteq> u) (nodes G))"
  with get_edge_data_simple(4)[OF assms] have "(u, v, dd) \<in> set (edges G)"
    using edges_mem[OF simple_graph_distinct[OF assms(1)]] by blast
  then show "(u, v) \<in> set (map (\<lambda>(a, b, d). (a, b)) (edges G))" by force
qed

lemma distinct_edges:
  assumes "simple_graph G"
  shows "distinct (map (\<lambda>(u, v, dd). (u, v)) (edges G))"
proof -
  have "distinct (map fst G)" using simple_graph_distinct[OF assms] by (simp add: nodes_def)
  moreover have "\<forall>(n, nbrs) \<in> set G. distinct (map fst nbrs)"
    using assms unfolding simple_graph_def list_all_iff by auto
  ultimately show ?thesis unfolding edges_def by (rule distinct_edges_from)
qed

lemma edges_once:
  assumes "simple_graph G" "get_edge_data G u v = Some dd" "get_edge_data G v u = Some dd"
  shows "length (filter (\<lambda>(a, b, d). {a, b} = {u, v}) (edges G)) = 1"
proof -
  define k where "k = map (\<lambda>(a, b, d). (a, b)) (edges G)"
  note s = get_edge_data_simple[OF assms(1,2)]
  have one: "(u, v) \<in> set k \<longleftrightarrow> (v, u) \<notin> set k"
    unfolding k_def edges_key_mem[OF assms(1,2)] edges_key_mem[OF assms(1,3)]
    using takeWhile_before[OF s(2) s(3) s(1)] by blast
  have dk: "distinct k" unfolding k_def by (rule distinct_edges[OF assms(1)])
  have "length (filter (\<lambda>(a, b, d). {a, b} = {u, v}) (edges G))
      = length (filter (\<lambda>p. p = (u, v) \<or> p = (v, u)) k)"
    unfolding k_def by (simp add: filter_map comp_def case_prod_unfold doubleton_eq_iff)
  also have "\<dots> = card ({p. p = (u, v) \<or> p = (v, u)} \<inter> set k)"
    by (rule distinct_length_filter[OF dk])
  also have "{p. p = (u, v) \<or> p = (v, u)} \<inter> set k = (if (u, v) \<in> set k then {(u, v)} else {(v, u)})"
    using one by auto
  also have "card \<dots> = 1" by simp
  finally show ?thesis .
qed

lemma edge_sum_commute: "\<forall>x y. fadd rt x y = fadd rt y x \<Longrightarrow> edge_sum rt b u v = edge_sum rt b v u"
  by (simp add: edge_sum_def)

lemma path_entry_fields:
  "path_from (path_entry rt b (u, v, d)) = u" "path_to (path_entry rt b (u, v, d)) = v"
  "path_betweenness (path_entry rt b (u, v, d)) = edge_sum rt b u v"
  "shared_disasters (path_entry rt b (u, v, d)) = list_of_set rt (disasters d)"
  "connection_strength (path_entry rt b (u, v, d)) = weight d"
  by (simp_all add: path_entry_def)

lemma spread_paths_once:
  assumes "simple_graph G" "get_edge_data G u v = Some dd" "get_edge_data G v u = Some dd"
    and "\<forall>x y. fadd rt x y = fadd rt y x"
    and "fless rt (ftenth rt) (edge_sum rt b u v)"
  shows "length (filter (\<lambda>e. {path_from e, path_to e} = {u, v})
           (map (path_entry rt b)
              (filter (\<lambda>(u, v, d). fless rt (ftenth rt) (edge_sum rt b u v)) (edges G)))) = 1"
proof -
  have "filter (\<lambda>e. {path_from e, path_to e} = {u, v})
           (map (path_entry rt b)
              (filter (\<lambda>(u, v, d). fless rt (ftenth rt) (edge_sum rt b u v)) (edges G)))
      = map (path_entry rt b)
          (filter (\<lambda>(a, c, d). {a, c} = {u, v} \<and> fless rt (ftenth rt) (edge_sum rt b a c)) (edges G))"
    by (simp add: filter_map comp_def case_prod_unfold path_entry_def conj_commute)
  also have "filter (\<lambda>(a, c, d). {a, c} = {u, v} \<and> fless rt (ftenth rt) (edge_sum rt b a c)) (edges G)
      = filter (\<lambda>(a, c, d). {a, c} = {u, v}) (edges G)"
    using assms(5) edge_sum_commute[OF assms(4), of b u v]
    by (intro filter_cong refl) (auto simp: doubleton_eq_iff)
  finally show ?thesis using edges_once[OF assms(1-3)] by simp
qed

lemma path_sums_above:
  "path_betweenness ` set (map (path_entry rt b)
      (filter (\<lambda>(u, v, d). fless rt (ftenth rt) (edge_sum rt b u v)) es))
   \<subseteq> {x. fless rt (ftenth rt) x}"
  by (auto simp: path_entry_def)

text \<open>
  C6, for every float arithmetic in which \<^verbatim>\<open><\<close> orders the numbers above 0.1 and \<^verbatim>\<open>+\<close>
  commutes, and every way in which \<^verbatim>\<open>list(s)\<close> lists the elements of a set, each once. For
  the graph built from any data, the betweenness routine and the analysis return; the
  spread paths descend by the sum of the betweenness of their ends; every entry is an edge
  of the graph, whose weight it carries and whose disasters it lists, with the sum of the
  betweenness of its ends, which exceeds 0.1; and every edge whose sum exceeds 0.1 has
  exactly one entry.
\<close>

theorem spread_paths_of_edges:
  assumes "weak_order_on (fless rt) {x. fless rt (ftenth rt) x}"
    and "\<forall>x y. fadd rt x y = fadd rt y x"
    and "\<forall>S. finite S \<longrightarrow> set (list_of_set rt S) = S \<and> distinct (list_of_set rt S)"
  shows "\<exists>b res. betweenness_centrality rt cell_ne (build_location_graph df) = Some b \<and>
     map fst b = nodes (build_location_graph df) \<and>
     analyze_disaster_spread rt (build_location_graph df) df communities = Inr res \<and>
     sorted_wrt (\<lambda>x y. \<not> fless rt (path_betweenness x) (path_betweenness y))
       (potential_spread_paths res) \<and>
     (\<forall>e \<in> set (potential_spread_paths res).
        (\<exists>dd. get_edge_data (build_location_graph df) (path_from e) (path_to e) = Some dd \<and>
              connection_strength e = weight dd \<and>
              set (shared_disasters e) = disasters dd \<and> distinct (shared_disasters e)) \<and>
        path_betweenness e = edge_sum rt b (path_from e) (path_to e) \<and>
        fless rt (ftenth rt) (path_betweenness e)) \<and>
     (\<forall>u v dd. get_edge_data (build_location_graph df) u v = Some dd \<and>
                fless rt (ftenth rt) (edge_sum rt b u v) \<longrightarrow>
        length (filter (\<lambda>e. {path_from e, path_to e} = {u, v}) (potential_spread_paths res)) = 1)"
proof -
  let ?G = "build_location_graph df"
  let ?ps = "\<lambda>b. map (path_entry rt b)
                    (filter (\<lambda>(u, v, d). fless rt (ftenth rt) (edge_sum rt b u v)) (edges ?G))"
  have sg: "simple_graph ?G" using build_structure[of df] by simp
  from analyze_build[OF sg, of rt df communities] obtain b res where
    b: "betweenness_centrality rt cell_ne ?G = Some b" "map fst b = nodes ?G"
    and a: "analyze_disaster_spread rt ?G df communities = Inr res"
    and p: "potential_spread_paths res = sort_desc (fless rt) path_betweenness (?ps b)"
    by fastforce
  have 1: "sorted_wrt (\<lambda>x y. \<not> fless rt (path_betweenness x) (path_betweenness y))
             (potential_spread_paths res)"
    unfolding p
    by (rule descending_sort_desc[OF weak_order_on_subset[OF assms(1) path_sums_above]])
  have 2: "(\<exists>dd. get_edge_data ?G (path_from e) (path_to e) = Some dd \<and>
              connection_strength e = weight dd \<and>
              set (shared_disasters e) = disasters dd \<and> distinct (shared_disasters e)) \<and>
        path_betweenness e = edge_sum rt b (path_from e) (path_to e) \<and>
        fless rt (ftenth rt) (path_betweenness e)" if "e \<in> set (potential_spread_paths res)" for e
  proof -
    from that obtain u v d where e: "e = path_entry rt b (u, v, d)"
      and m: "(u, v, d) \<in> set (edges ?G)" and o: "fless rt (ftenth rt) (edge_sum rt b u v)"
      unfolding p set_sort_desc by auto
    from edges_endpoints[OF sg m] have g: "get_edge_data ?G u v = Some d" by simp
    from build_edge_finite[OF g] assms(3)
    have "set (list_of_set rt (disasters d)) = disasters d" "distinct (list_of_set rt (disasters d))"
      by simp_all
    with g o show ?thesis by (simp add: e path_entry_fields)
  qed
  have 3: "length (filter (\<lambda>e. {path_from e, path_to e} = {u, v}) (potential_spread_paths res)) = 1"
    if "get_edge_data ?G u v = Some dd" "fless rt (ftenth rt) (edge_sum rt b u v)" for u v dd
  proof -
    from that(1) have "get_edge_data ?G v u = Some dd" by (simp add: build_symmetric[of df v u])
    from spread_paths_once[OF sg that(1) this assms(2) that(2)] show ?thesis
      unfolding p length_filter_sort_desc .
  qed
  from b a 1 2 3 show ?thesis by blast
qed

theorem spread_paths_of_edges_witness:
  "betweenness_centrality exact cell_ne (build_location_graph scenario_df)
     = Some [(Some ''A'', Num 1), (Some ''B'', Num 0), (Some ''C'', Num 0)] \<and>
   analyze_disaster_spread exact (build_location_graph scenario_df) scenario_df
     [[Some ''A'', Some ''B'', Some ''C'']] = Inr scenario_results \<and>
   sorted_wrt (\<lambda>x y. \<not> fless exact (path_betweenness x) (path_betweenness y))
     (potential_spread_paths scenario_results) \<and>
   length (filter (\<lambda>e. {path_from e, path_to e} = {Some ''B'', Some ''A''})
             (potential_spread_paths scenario_results)) = 1"
proof -
  have c: "\<forall>x y. fadd exact x y = fadd exact y x" using exact_fadd_commute by blast
  have l: "\<forall>S. finite S \<longrightarrow> set (list_of_set exact S) = S \<and> distinct (list_of_set exact S)"
    using exact_listing by blast
  from spread_paths_of_edges[OF exact_orders_above c l,
      of scenario_df "[[Some ''A'', Some ''B'', Some ''C'']]"]
  obtain b res where
    b: "betweenness_centrality exact cell_ne (build_location_graph scenario_df) = Some b"
    and a: "analyze_disaster_spread exact (build_location_graph scenario_df) scenario_df
              [[Some ''A'', Some ''B'', Some ''C'']] = Inr res"
    and s: "sorted_wrt (\<lambda>x y. \<not> fless exact (path_betweenness x) (path_betweenness y))
              (potential_spread_paths res)"
    and o: "\<forall>u v dd. get_edge_data (build_location_graph scenario_df) u v = Some dd \<and>
                fless exact (ftenth exact) (edge_sum exact b u v) \<longrightarrow>
        length (filter (\<lambda>e. {path_from e, path_to e} = {u, v}) (potential_spread_paths res)) = 1"
    by blast
  from b scenario_betweenness
  have be: "b = [(Some ''A'', Num 1), (Some ''B'', Num 0), (Some ''C'', Num 0)]" by simp
  from a scenario_analysis have re: "res = scenario_results" by simp
  have e: "get_edge_data (build_location_graph scenario_df) (Some ''B'') (Some ''A'')
             = Some \<lparr>weight = 1, disasters = {Some ''flood''}\<rparr>"
    by code_simp
  have w: "fless exact (ftenth exact)
             (edge_sum exact [(Some ''A'', Num 1), (Some ''B'', Num 0), (Some ''C'', Num 0)]
                (Some ''B'') (Some ''A''))"
    by code_simp
  from o e w have "length (filter (\<lambda>e. {path_from e, path_to e} = {Some ''B'', Some ''A''})
             (potential_spread_paths res)) = 1"
    unfolding be by blast
  with s show ?thesis unfolding re using scenario_betweenness scenario_analysis by blast
qed

subsection \<open>The report\<close>






subsection \<open>What the report depends on\<close>

lemma visit_listing: "visit (rt\<lparr>list_of_set := l\<rparr>) = visit rt"
  by (intro ext) (simp add: visit_def split: prod.splits)

lemma bfs_listing: "bfs (rt\<lparr>list_of_set := l\<rparr>) G S D sigma P Q = bfs rt G S D sigma P Q"
proof (induction rt G S D sigma P Q rule: bfs.induct)
  case (1 rt G S D sigma P)
  then show ?case by simp
next
  case (2 rt G S D sigma P v Q)
  show ?case
  proof (cases "D v")
    case None
    then show ?thesis by simp
  next
    case (Some Dv)
    obtain Q' D' sigma' P' where
      f: "fold (visit rt v Dv (sigma v)) (neighbors G v) (Q, D, sigma, P) = (Q', D', sigma', P')"
      by (metis prod_cases4)
    from "2.IH"[OF Some f[symmetric] refl refl] Some f show ?thesis
      by (simp add: visit_listing)
  qed
qed

lemma accumulate_step_listing:
  "accumulate_step (rt\<lparr>list_of_set := l\<rparr>) = accumulate_step rt"
  by (intro ext) (simp add: accumulate_step_def Let_def split: prod.splits)

lemma single_source_listing:
  "single_source_shortest_path_basic (rt\<lparr>list_of_set := l\<rparr>) G s
     = single_source_shortest_path_basic rt G s"
proof -
  have f: "fzero (rt\<lparr>list_of_set := l\<rparr>) = fzero rt" "fone (rt\<lparr>list_of_set := l\<rparr>) = fone rt"
    by simp_all
  show ?thesis
    unfolding single_source_shortest_path_basic_def f by (rule bfs_listing)
qed

lemma accumulate_basic_listing:
  "accumulate_basic (rt\<lparr>list_of_set := l\<rparr>) = accumulate_basic rt"
  by (intro ext) (simp add: accumulate_basic_def accumulate_step_listing)

lemma accumulate_sources_listing:
  "accumulate_sources (rt\<lparr>list_of_set := l\<rparr>) ne G ss b = accumulate_sources rt ne G ss b"
proof (induction ss arbitrary: b)
  case Nil
  then show ?case by simp
next
  case (Cons s ss)
  show ?case
    unfolding accumulate_sources.simps single_source_listing accumulate_basic_listing
    by (simp add: Cons.IH split: option.splits)
qed

lemma rescale_listing: "rescale (rt\<lparr>list_of_set := l\<rparr>) = rescale rt"
  by (intro ext) (simp add: rescale_def)

lemma betweenness_centrality_listing:
  "betweenness_centrality (rt\<lparr>list_of_set := l\<rparr>) ne G = betweenness_centrality rt ne G"
  by (simp add: betweenness_centrality_def accumulate_sources_listing rescale_listing
      split: option.splits)

lemma degree_centrality_listing:
  "degree_centrality (rt\<lparr>list_of_set := l\<rparr>) G = degree_centrality rt G"
  by (simp add: degree_centrality_def)

lemma loc_alert_levels_listing:
  "loc_alert_levels (rt\<lparr>list_of_set := l\<rparr>) df = loc_alert_levels rt df"
  by (intro ext) (simp add: loc_alert_levels_def)

lemma risk_entries_listing:
  "risk_entries (rt\<lparr>list_of_set := l\<rparr>) alerts cs = risk_entries rt alerts cs"
  by (induction cs) (auto simp: Let_def split: option.splits)

lemma edge_sum_listing: "edge_sum (rt\<lparr>list_of_set := l\<rparr>) b u v = edge_sum rt b u v"
  by (simp add: edge_sum_def)

lemma insort_desc_map:
  "(\<And>x. f (g x) = f x) \<Longrightarrow> insort_desc lt f (g x) (map g ys) = map g (insort_desc lt f x ys)"
  by (induction ys) simp_all

lemma sort_desc_map:
  "(\<And>x. f (g x) = f x) \<Longrightarrow> sort_desc lt f (map g xs) = map g (sort_desc lt f xs)"
  by (induction xs) (simp_all add: sort_desc_Cons insort_desc_map, simp add: sort_desc_def)

lemma without_draws_paths:
  assumes "\<forall>S. finite S \<longrightarrow> set (list_of_set rt S) = S"
    and "\<forall>(u, v, d) \<in> set es. finite (disasters d)"
  shows "map (\<lambda>p. p\<lparr>shared_disasters := sorted_list_of_set (set (shared_disasters p))\<rparr>)
           (take n (sort_desc (fless rt) path_betweenness (map (path_entry rt b) es)))
       = take n (sort_desc (fless rt) path_betweenness
           (map (\<lambda>(u, v, d).
              \<lparr>path_from = u, path_to = v, path_betweenness = edge_sum rt b u v,
               shared_disasters = sorted_list_of_set (disasters d),
               connection_strength = weight d\<rparr>) es))"
proof -
  let ?g = "\<lambda>p::'a spread_path. p\<lparr>shared_disasters := sorted_list_of_set (set (shared_disasters p))\<rparr>"
  have "map ?g (take n (sort_desc (fless rt) path_betweenness (map (path_entry rt b) es)))
      = take n (map ?g (sort_desc (fless rt) path_betweenness (map (path_entry rt b) es)))"
    by (rule take_map[symmetric])
  also have "map ?g (sort_desc (fless rt) path_betweenness (map (path_entry rt b) es))
      = sort_desc (fless rt) path_betweenness (map ?g (map (path_entry rt b) es))"
    by (rule sort_desc_map[symmetric]) simp
  also have "map ?g (map (path_entry rt b) es)
      = map (\<lambda>(u, v, d).
              \<lparr>path_from = u, path_to = v, path_betweenness = edge_sum rt b u v,
               shared_disasters = sorted_list_of_set (disasters d),
               connection_strength = weight d\<rparr>) es"
    using assms by (auto simp: path_entry_def)
  finally show ?thesis .
qed

lemma without_draws_generate:
  assumes "\<forall>S. finite S \<longrightarrow> set (list_of_set rt S) = S"
    and "\<not> empty_df df" "filter (\<lambda>col. col \<notin> set (columns df)) required_columns = []"
  shows "\<exists>b. betweenness_centrality rt cell_ne (build_location_graph df) = Some b \<and>
    without_draws (generate_link_analysis_report rt df communities) =
      Report
        \<lparr>locations_analyzed = length (unique (map location (rows df))),
         disaster_types_analyzed = unique (map disaster_type (rows df)),
         report_high_risk_locations =
           take 5 (sort_desc (fless rt) risk_score
             (risk_entries rt (loc_alert_levels rt df)
                (degree_centrality rt (build_location_graph df)))),
         report_disaster_clusters = [],
         report_potential_spread_paths =
           take 10 (sort_desc (fless rt) path_betweenness
             (map (\<lambda>(u, v, d).
                \<lparr>path_from = u, path_to = v, path_betweenness = edge_sum rt b u v,
                 shared_disasters = sorted_list_of_set (disasters d),
                 connection_strength = weight d\<rparr>)
                (filter (\<lambda>(u, v, d). fless rt (ftenth rt) (edge_sum rt b u v))
                   (edges (build_location_graph df))))),
         visualization_path = ''disaster_network.png''\<rparr>"
proof -
  let ?G = "build_location_graph df"
  have sg: "simple_graph ?G" using build_structure[of df] by simp
  from generate_report[OF assms(2,3), of rt communities] obtain b res where
    b: "betweenness_centrality rt cell_ne ?G = Some b"
    and a: "analyze_disaster_spread rt ?G df communities = Inr res"
    and h: "high_risk_locations res =
      sort_desc (fless rt) risk_score
        (risk_entries rt (loc_alert_levels rt df) (degree_centrality rt ?G))"
    and c: "disaster_clusters res =
      sort_desc (pair_less rt) (\<lambda>x. (cluster_size x, avg_alert_level x))
        (clusters_from rt (loc_alert_levels rt df) 0 communities)"
    and p: "potential_spread_paths res =
      sort_desc (fless rt) path_betweenness
        (map (path_entry rt b)
           (filter (\<lambda>(u, v, d). fless rt (ftenth rt) (edge_sum rt b u v)) (edges ?G)))"
    and g: "generate_link_analysis_report rt df communities =
      Report
        \<lparr>locations_analyzed = length (unique (map location (rows df))),
         disaster_types_analyzed = unique (map disaster_type (rows df)),
         report_high_risk_locations = take 5 (high_risk_locations res),
         report_disaster_clusters = disaster_clusters res,
         report_potential_spread_paths = take 10 (potential_spread_paths res),
         visualization_path = ''disaster_network.png''\<rparr>"
    by blast
  have fin: "\<forall>(u, v, d) \<in> set (filter (\<lambda>(u, v, d). fless rt (ftenth rt) (edge_sum rt b u v))
                                  (edges ?G)). finite (disasters d)"
    using edges_endpoints[OF sg] build_edge_finite[of df] by fastforce
  show ?thesis
    apply (rule exI[of _ b])
    apply (rule conjI[OF b])
    unfolding g without_draws_def
    by (simp add: h p without_draws_paths[OF assms(1) fin])
qed

text \<open>
  C8, as the code has it. The communities come from a randomised library routine, and the
  order of the elements of a set from the hashes of the interpreter, which change from run
  to run: both are drawn by a run. Two runs on the same data give the same outcome in
  everything but the clusters and the order in which a spread path lists its disasters:
  the messages, the number of locations, the disaster types, the high-risk locations, and
  the spread paths with their ends, betweenness, strength and set of disasters are
  determined by the data alone.
\<close>

theorem report_determined_up_to_draws:
  assumes "\<forall>S. finite S \<longrightarrow> set (list_of_set rt S) = S"
    and "\<forall>S. finite S \<longrightarrow> set (l S) = S"
  shows "without_draws (generate_link_analysis_report rt df communities) =
         without_draws (generate_link_analysis_report (rt\<lparr>list_of_set := l\<rparr>) df communities')"
proof (cases "empty_df df")
  case True
  then show ?thesis by (simp add: generate_link_analysis_report_def)
next
  case ne: False
  show ?thesis
  proof (cases "filter (\<lambda>col. col \<notin> set (columns df)) required_columns = []")
    case False
    with ne show ?thesis by (simp add: generate_link_analysis_report_def Let_def)
  next
    case True
    from assms(2) have l: "\<forall>S. finite S \<longrightarrow> set (list_of_set (rt\<lparr>list_of_set := l\<rparr>) S) = S"
      by simp
    from without_draws_generate[OF assms(1) ne True, of communities]
      without_draws_generate[OF l ne True, of communities']
    show ?thesis
      by (auto simp: betweenness_centrality_listing degree_centrality_listing
            loc_alert_levels_listing risk_entries_listing edge_sum_listing)
  qed
qed

theorem report_determined_up_to_draws_witness:
  "without_draws
     (generate_link_analysis_report exact twice_df [[Some ''A'', Some ''B'', Some ''C'']]) =
   without_draws
     (generate_link_analysis_report (exact\<lparr>list_of_set := descending\<rparr>) twice_df
        [[Some ''B'', Some ''A'', Some ''C'']])"
proof -
  have 1: "\<forall>S. finite S \<longrightarrow> set (list_of_set exact S) = S" using exact_listing by blast
  have 2: "\<forall>S. finite S \<longrightarrow> set (descending S) = S" by (simp add: descending_def)
  from report_determined_up_to_draws[OF 1 2] show ?thesis .
qed

text \<open>
  The same data give different reports when the one community is listed in another order,
  and when the disasters of an edge are.
\<close>

theorem report_depends_on_draws:
  "generate_link_analysis_report exact twice_df [[Some ''A'', Some ''B'', Some ''C'']] \<noteq>
   generate_link_analysis_report exact twice_df [[Some ''B'', Some ''A'', Some ''C'']] \<and>
   generate_link_analysis_report exact twice_df [[Some ''A'', Some ''B'', Some ''C'']] \<noteq>
   generate_link_analysis_report (exact\<lparr>list_of_set := descending\<rparr>) twice_df
     [[Some ''A'', Some ''B'', Some ''C'']]"
  by code_simp

end
